theory Spec2Isabelle
  imports Complex_Main
begin

section \<open>Aggregation classes and the tables of \<open>FusedAggregation\<close>\<close>

text \<open>
  The aggregation classes that \<open>aggregation_resolver\<close> can hand to the constructor.
  The seven classes of \<open>FUSABLE_AGGRS\<close> are listed by name; \<open>OtherAggregation\<close>
  stands for every other aggregation class of the library (median, softmax, ...).
\<close>

datatype aggr =
    SumAggregation
  | MeanAggregation
  | MinAggregation
  | MaxAggregation
  | MulAggregation
  | VarAggregation
  | StdAggregation
  | OtherAggregation

definition FUSABLE_AGGRS :: "aggr set" where
  "FUSABLE_AGGRS = {SumAggregation, MeanAggregation, MinAggregation, MaxAggregation,
                    MulAggregation, VarAggregation, StdAggregation}"

definition DEGREE_BASED_AGGRS :: "aggr set" where
  "DEGREE_BASED_AGGRS = {MeanAggregation, VarAggregation, StdAggregation}"

definition MASK_REQUIRED_AGGRS :: "aggr set" where
  "MASK_REQUIRED_AGGRS = {MinAggregation, MaxAggregation, MulAggregation}"

text \<open>The \<open>reduce\<close> options of the scatter directives: the strings
  \<open>'sum'\<close>, \<open>'amin'\<close>, \<open>'amax'\<close>, \<open>'prod'\<close> and \<open>'pow_sum'\<close>.\<close>

datatype reduce = R_sum | R_amin | R_amax | R_prod | R_pow_sum

text \<open>The dictionary \<open>REDUCE\<close>; a class that is not a key has no entry.\<close>

fun REDUCE :: "aggr \<Rightarrow> reduce option" where
  "REDUCE SumAggregation = Some R_sum"
| "REDUCE MeanAggregation = Some R_sum"
| "REDUCE MinAggregation = Some R_amin"
| "REDUCE MaxAggregation = Some R_amax"
| "REDUCE MulAggregation = Some R_prod"
| "REDUCE VarAggregation = Some R_pow_sum"
| "REDUCE StdAggregation = Some R_pow_sum"
| "REDUCE OtherAggregation = None"

text \<open>Python exceptions that the constructor and \<open>forward\<close> can raise.\<close>

datatype error =
    ValueError
  | ShapeError
  | RuntimeError
  | IndexError
  | TypeError
  | AssertionError
  | NotImplementedError
  | UnboundLocalError

definition bind :: "error + 'a \<Rightarrow> ('a \<Rightarrow> error + 'b) \<Rightarrow> error + 'b" where
  "bind m f = (case m of Inl e \<Rightarrow> Inl e | Inr v \<Rightarrow> f v)"

section \<open>The constructor: building the plan\<close>

record engine =
  aggr_cls :: "aggr list"
  aggr_index :: "aggr \<Rightarrow> nat option"
  need_degree :: bool
  requires_mask :: bool
  reduce_ops :: "reduce option list"
  lookup_ops :: "(aggr \<times> nat) option list"

text \<open>
  \<open>{cls: i for i, cls in enumerate(self.aggr_cls)}\<close>: the entries are written in
  list order, so a class that occurs twice keeps the index of its last occurrence.
\<close>

fun enumerate_from :: "nat \<Rightarrow> 'a list \<Rightarrow> (nat \<times> 'a) list" where
  "enumerate_from n [] = []"
| "enumerate_from n (x # xs) = (n, x) # enumerate_from (Suc n) xs"

fun dict_of :: "(nat \<times> aggr) list \<Rightarrow> (aggr \<Rightarrow> nat option) \<Rightarrow> (aggr \<Rightarrow> nat option)" where
  "dict_of [] m = m"
| "dict_of ((i, cls) # rest) m = dict_of rest (m(cls \<mapsto> i))"

definition make_aggr_index :: "aggr list \<Rightarrow> (aggr \<Rightarrow> nat option)" where
  "make_aggr_index cls_list = dict_of (enumerate_from 0 cls_list) Map.empty"

text \<open>
  One pass of the loop of lines 103--147: the pair appended to \<open>reduce_ops\<close> and
  \<open>lookup_ops\<close> for the class \<open>cls\<close>. An entry \<open>None\<close> of \<open>reduce_ops\<close> means that
  the operator re-uses the output of another aggregator.
\<close>

definition plan_entry ::
  "(aggr \<Rightarrow> nat option) \<Rightarrow> aggr \<Rightarrow> reduce option \<times> (aggr \<times> nat) option" where
  "plan_entry idx cls =
    (if cls = MeanAggregation then
       (case idx SumAggregation of
          Some j \<Rightarrow> (None, Some (SumAggregation, j))
        | None \<Rightarrow> (REDUCE cls, None))
     else if cls = VarAggregation then
       (case idx MeanAggregation of
          Some j \<Rightarrow> (REDUCE cls, Some (MeanAggregation, j))
        | None \<Rightarrow>
           (case idx SumAggregation of
              Some j \<Rightarrow> (REDUCE cls, Some (SumAggregation, j))
            | None \<Rightarrow> (REDUCE cls, None)))
     else if cls = StdAggregation then
       (case idx VarAggregation of
          Some j \<Rightarrow> (None, Some (VarAggregation, j))
        | None \<Rightarrow>
           (case idx MeanAggregation of
              Some j \<Rightarrow> (REDUCE cls, Some (MeanAggregation, j))
            | None \<Rightarrow>
               (case idx SumAggregation of
                  Some j \<Rightarrow> (REDUCE cls, Some (SumAggregation, j))
                | None \<Rightarrow> (REDUCE cls, None))))
     else (REDUCE cls, None))"

text \<open>
  \<open>__init__\<close>. The argument is the list of classes after \<open>aggregation_resolver\<close>;
  being a list is part of its type. The two flags are set by a loop that turns the flag
  on at a member of the respective set.
\<close>

definition init :: "aggr list \<Rightarrow> error + engine" where
  "init aggrs =
    (if length aggrs = 0 then Inl ValueError
     else if \<exists>cls \<in> set aggrs. cls \<notin> FUSABLE_AGGRS then Inl ValueError
     else
       (let idx = make_aggr_index aggrs in
        Inr \<lparr> aggr_cls = aggrs,
              aggr_index = idx,
              need_degree = (\<exists>cls \<in> set aggrs. cls \<in> DEGREE_BASED_AGGRS),
              requires_mask = (\<exists>cls \<in> set aggrs. cls \<in> MASK_REQUIRED_AGGRS),
              reduce_ops = map (\<lambda>cls. fst (plan_entry idx cls)) aggrs,
              lookup_ops = map (\<lambda>cls. snd (plan_entry idx cls)) aggrs \<rparr>))"

section \<open>Tensor entries\<close>

text \<open>
  The entries of a floating-point tensor: a finite value, the two infinities, which
  \<open>forward\<close> writes as fill values (\<open>float('inf')\<close>, \<open>float('-inf')\<close>), and NaN.
  Finite values are exact reals: rounding is not part of this model. The operations
  follow IEEE 754 on the special values; the sign of zero is not kept.
\<close>

datatype fnum = NaN | NInf | Fin real | PInf

fun fneg :: "fnum \<Rightarrow> fnum" where
  "fneg NaN = NaN"
| "fneg NInf = PInf"
| "fneg (Fin a) = Fin (- a)"
| "fneg PInf = NInf"

fun fadd :: "fnum \<Rightarrow> fnum \<Rightarrow> fnum" where
  "fadd (Fin a) (Fin b) = Fin (a + b)"
| "fadd NaN _ = NaN"
| "fadd _ NaN = NaN"
| "fadd PInf NInf = NaN"
| "fadd NInf PInf = NaN"
| "fadd PInf _ = PInf"
| "fadd _ PInf = PInf"
| "fadd NInf _ = NInf"
| "fadd _ NInf = NInf"

definition fsub :: "fnum \<Rightarrow> fnum \<Rightarrow> fnum" where
  "fsub a b = fadd a (fneg b)"

fun fmul :: "fnum \<Rightarrow> fnum \<Rightarrow> fnum" where
  "fmul (Fin a) (Fin b) = Fin (a * b)"
| "fmul NaN _ = NaN"
| "fmul _ NaN = NaN"
| "fmul (Fin a) PInf = (if a = 0 then NaN else if 0 < a then PInf else NInf)"
| "fmul (Fin a) NInf = (if a = 0 then NaN else if 0 < a then NInf else PInf)"
| "fmul PInf (Fin b) = (if b = 0 then NaN else if 0 < b then PInf else NInf)"
| "fmul NInf (Fin b) = (if b = 0 then NaN else if 0 < b then NInf else PInf)"
| "fmul PInf PInf = PInf"
| "fmul PInf NInf = NInf"
| "fmul NInf PInf = NInf"
| "fmul NInf NInf = PInf"

fun fdiv :: "fnum \<Rightarrow> fnum \<Rightarrow> fnum" where
  "fdiv (Fin a) (Fin b) =
     (if b = 0 then (if a = 0 then NaN else if 0 < a then PInf else NInf) else Fin (a / b))"
| "fdiv NaN _ = NaN"
| "fdiv _ NaN = NaN"
| "fdiv (Fin a) PInf = Fin 0"
| "fdiv (Fin a) NInf = Fin 0"
| "fdiv PInf (Fin b) = (if 0 \<le> b then PInf else NInf)"
| "fdiv NInf (Fin b) = (if 0 \<le> b then NInf else PInf)"
| "fdiv PInf PInf = NaN"
| "fdiv PInf NInf = NaN"
| "fdiv NInf PInf = NaN"
| "fdiv NInf NInf = NaN"

fun fmin :: "fnum \<Rightarrow> fnum \<Rightarrow> fnum" where
  "fmin (Fin a) (Fin b) = Fin (min a b)"
| "fmin NaN _ = NaN"
| "fmin _ NaN = NaN"
| "fmin NInf _ = NInf"
| "fmin _ NInf = NInf"
| "fmin PInf b = b"
| "fmin a PInf = a"

fun fmax :: "fnum \<Rightarrow> fnum \<Rightarrow> fnum" where
  "fmax (Fin a) (Fin b) = Fin (max a b)"
| "fmax NaN _ = NaN"
| "fmax _ NaN = NaN"
| "fmax PInf _ = PInf"
| "fmax _ PInf = PInf"
| "fmax NInf b = b"
| "fmax a NInf = a"

text \<open>\<open>relu\<close> and \<open>sqrt\<close>, entry by entry.\<close>

fun frelu :: "fnum \<Rightarrow> fnum" where
  "frelu NaN = NaN"
| "frelu NInf = Fin 0"
| "frelu (Fin a) = Fin (max a 0)"
| "frelu PInf = PInf"

fun fsqrt :: "fnum \<Rightarrow> fnum" where
  "fsqrt NaN = NaN"
| "fsqrt NInf = NaN"
| "fsqrt (Fin a) = (if a < 0 then NaN else Fin (sqrt a))"
| "fsqrt PInf = PInf"

text \<open>\<open>clamp_(min=1)\<close> on one entry.\<close>

fun clamp_min :: "fnum \<Rightarrow> fnum \<Rightarrow> fnum" where
  "clamp_min lo NaN = NaN"
| "clamp_min lo v = fmax v lo"

section \<open>Tensors and the scatter primitives\<close>

type_synonym vector = "fnum list"
type_synonym matrix = "fnum list list"

text \<open>
  The feature tensor \<open>x\<close> handed to \<open>forward\<close>: a two-dimensional tensor with its
  number of columns and its rows, whose entries may be finite, infinite or NaN, or a
  tensor of another number of dimensions, of which only that number is kept:
  \<open>OtherRank d\<close> has \<open>d\<close> dimensions for \<open>d < 2\<close> and \<open>d + 1\<close> dimensions otherwise.
\<close>

datatype tensor = Matrix nat "fnum list list" | OtherRank nat

text \<open>\<open>x.dim()\<close>.\<close>

fun dim :: "tensor \<Rightarrow> nat" where
  "dim (Matrix num_feats rows) = 2"
| "dim (OtherRank d) = (if d < 2 then d else Suc d)"

definition new_full :: "nat \<Rightarrow> nat \<Rightarrow> fnum \<Rightarrow> matrix" where
  "new_full rows cols v = replicate rows (replicate cols v)"

definition t_mul :: "matrix \<Rightarrow> matrix \<Rightarrow> matrix" where
  "t_mul a b = map2 (map2 fmul) a b"

definition t_sub :: "matrix \<Rightarrow> matrix \<Rightarrow> matrix" where
  "t_sub a b = map2 (map2 fsub) a b"

text \<open>\<open>a / c.view(-1, 1)\<close>: every row of \<open>a\<close> is divided by the entry of \<open>c\<close> at
  its position.\<close>

definition t_div_col :: "matrix \<Rightarrow> vector \<Rightarrow> matrix" where
  "t_div_col a c = map2 (\<lambda>row d. map (\<lambda>v. fdiv v d) row) a c"

definition t_relu :: "matrix \<Rightarrow> matrix" where
  "t_relu a = map (map frelu) a"

definition t_add_scalar :: "matrix \<Rightarrow> real \<Rightarrow> matrix" where
  "t_add_scalar a c = map (map (\<lambda>v. fadd v (Fin c))) a"

definition t_sqrt :: "matrix \<Rightarrow> matrix" where
  "t_sqrt a = map (map fsqrt) a"

text \<open>
  The loop of torch's \<open>scatter\<close> kernels along dimension 0: entry \<open>n\<close> of \<open>src\<close> is
  combined into position \<open>index[n]\<close> of \<open>out\<close>. The index may be shorter than the
  source (the surplus source entries are not read) but not longer, and every index must
  lie in \<open>[0, len(out))\<close>; torch raises a \<open>RuntimeError\<close> otherwise.
\<close>

fun scatter_loop :: "('a \<Rightarrow> 'b \<Rightarrow> 'a) \<Rightarrow> 'a list \<Rightarrow> int list \<Rightarrow> 'b list \<Rightarrow> error + 'a list" where
  "scatter_loop f out [] src = Inr out"
| "scatter_loop f out (i # index) [] = Inl RuntimeError"
| "scatter_loop f out (i # index) (s # src) =
     (if 0 \<le> i \<and> i < int (length out)
      then scatter_loop f (out[nat i := f (out ! nat i) s]) index src
      else Inl RuntimeError)"

text \<open>\<open>count.scatter_add_(0, index, src)\<close> on one-dimensional tensors.\<close>

definition scatter_add :: "vector \<Rightarrow> int list \<Rightarrow> vector \<Rightarrow> error + vector" where
  "scatter_add out index src = scatter_loop fadd out index src"

fun reduce_fn :: "reduce \<Rightarrow> fnum \<Rightarrow> fnum \<Rightarrow> fnum" where
  "reduce_fn R_sum = fadd"
| "reduce_fn R_amin = fmin"
| "reduce_fn R_amax = fmax"
| "reduce_fn R_prod = fmul"
| "reduce_fn R_pow_sum = fadd"

text \<open>
  \<open>out.scatter_reduce_(0, index, src, reduce, include_self=True)\<close> with the index
  expanded to \<open>num_feats\<close> columns: row \<open>n\<close> of \<open>src\<close> is combined, column by column,
  into row \<open>index[n]\<close> of \<open>out\<close>. \<open>'pow_sum'\<close> is not an option of torch. An index
  tensor without entries (no rows or no columns) makes torch return at once, without
  any check.
\<close>

definition scatter_reduce ::
  "matrix \<Rightarrow> int list \<Rightarrow> nat \<Rightarrow> matrix \<Rightarrow> reduce \<Rightarrow> error + matrix" where
  "scatter_reduce out index num_feats src reduce =
    (if reduce = R_pow_sum then Inl RuntimeError
     else if index = [] \<or> num_feats = 0 then Inr out
     else scatter_loop (map2 (reduce_fn reduce)) out index src)"

text \<open>
  \<open>mask[index] = False\<close>: an index in \<open>[-len(mask), 0)\<close> counts from the end, an
  index outside \<open>[-len(mask), len(mask))\<close> raises an \<open>IndexError\<close>.
\<close>

fun index_put_False :: "bool list \<Rightarrow> int list \<Rightarrow> error + bool list" where
  "index_put_False msk [] = Inr msk"
| "index_put_False msk (i # index) =
     (let n = int (length msk) in
      if - n \<le> i \<and> i < n
      then index_put_False (msk[nat (if i < 0 then i + n else i) := False]) index
      else Inl IndexError)"

text \<open>\<open>out.masked_fill(mask.view(-1, 1), v)\<close>: the rows whose mask entry is set are
  filled with \<open>v\<close>.\<close>

definition masked_fill :: "matrix \<Rightarrow> bool list \<Rightarrow> fnum \<Rightarrow> matrix" where
  "masked_fill out msk v = map2 (\<lambda>row m. if m then map (\<lambda>_. v) row else row) out msk"

text \<open>Reading and writing a Python list by position.\<close>

definition item :: "'a list \<Rightarrow> nat \<Rightarrow> error + 'a" where
  "item xs i = (if i < length xs then Inr (xs ! i) else Inl IndexError)"

definition set_item :: "'a list \<Rightarrow> nat \<Rightarrow> 'a \<Rightarrow> error + 'a list" where
  "set_item xs i v = (if i < length xs then Inr (xs[i := v]) else Inl IndexError)"

section \<open>\<open>forward\<close>\<close>

text \<open>
  Modelled from the spec: \<open>assert_two_dimensional_input\<close>, a method of the base class
  \<open>Aggregation\<close>, which is not part of the sources at hand. By the spec a feature array
  that is not 2-dimensional is a shape error. On success the model hands back
  \<open>x.size(-1)\<close> and the rows of \<open>x\<close>. The method receives neither the index nor
  \<open>dim_size\<close>. Its companion \<open>assert_index_present\<close> only rejects a missing index; the
  index is always given here.
\<close>

definition assert_two_dimensional_input :: "tensor \<Rightarrow> error + (nat \<times> matrix)" where
  "assert_two_dimensional_input x =
    (case x of
       Matrix num_feats rows \<Rightarrow> Inr (num_feats, rows)
     | OtherRank d \<Rightarrow> Inl ShapeError)"

text \<open>
  Lines 158--167: the clamped count and the mask. A variable that is not assigned on the
  path taken is \<open>None\<close> here; reading it raises \<open>UnboundLocalError\<close>.
\<close>

definition group_statistics ::
  "engine \<Rightarrow> matrix \<Rightarrow> int list \<Rightarrow> nat \<Rightarrow> error + (vector option \<times> bool list option)" where
  "group_statistics self x index dim_size =
    (if need_degree self then
       bind (scatter_add (replicate dim_size (Fin 0)) index (replicate (length x) (Fin 1)))
         (\<lambda>count.
            Inr (Some (map (clamp_min (Fin 1)) count),
                 if requires_mask self then Some (map (\<lambda>c. c = Fin 0) count) else None))
     else if requires_mask self then
       bind (index_put_False (replicate dim_size True) index)
         (\<lambda>msk. Inr (None, Some msk))
     else Inr (None, None))"

text \<open>Lines 182--198: one base reduction.\<close>

definition fill_value_of :: "reduce \<Rightarrow> fnum" where
  "fill_value_of reduce =
    (if reduce = R_amin then PInf
     else if reduce = R_amax then NInf
     else if reduce = R_prod then Fin 1
     else Fin 0)"

definition reduce_one ::
  "matrix \<Rightarrow> int list \<Rightarrow> nat \<Rightarrow> nat \<Rightarrow> bool list option \<Rightarrow> reduce \<Rightarrow> error + matrix" where
  "reduce_one x index dim_size num_feats msk reduce =
    (let src = (if reduce = R_pow_sum then t_mul x x else x);
         reduce' = (if reduce = R_pow_sum then R_sum else reduce);
         fill_value = fill_value_of reduce'
     in bind (scatter_reduce (new_full dim_size num_feats fill_value) index num_feats src reduce')
          (\<lambda>out.
             if fill_value \<noteq> Fin 0 then
               (case msk of
                  None \<Rightarrow> Inl UnboundLocalError
                | Some m \<Rightarrow> Inr (masked_fill out m (Fin 0)))
             else Inr out))"

text \<open>Lines 174--198: the loop over \<open>reduce_ops\<close>.\<close>

fun base_loop ::
  "matrix \<Rightarrow> int list \<Rightarrow> nat \<Rightarrow> nat \<Rightarrow> bool list option \<Rightarrow> reduce option list
     \<Rightarrow> error + matrix option list" where
  "base_loop x index dim_size num_feats msk [] = Inr []"
| "base_loop x index dim_size num_feats msk (None # ops) =
     bind (base_loop x index dim_size num_feats msk ops) (\<lambda>outs. Inr (None # outs))"
| "base_loop x index dim_size num_feats msk (Some reduce # ops) =
     bind (reduce_one x index dim_size num_feats msk reduce) (\<lambda>out.
     bind (base_loop x index dim_size num_feats msk ops) (\<lambda>outs. Inr (Some out # outs)))"

text \<open>
  \<open>t / count\<close> with the count viewed as a column: every row is divided by the count of
  its group. An unassigned \<open>count\<close> raises first, then dividing \<open>None\<close> is a
  \<open>TypeError\<close>.
\<close>

definition div_count :: "matrix option \<Rightarrow> vector option \<Rightarrow> error + matrix" where
  "div_count t count =
    (case count of
       None \<Rightarrow> Inl UnboundLocalError
     | Some c \<Rightarrow>
        (case t of
           None \<Rightarrow> Inl TypeError
         | Some m \<Rightarrow> Inr (t_div_col m c)))"

text \<open>\<open>(pow_sum / count) - (mean * mean)\<close>.\<close>

definition variance :: "matrix option \<Rightarrow> vector option \<Rightarrow> matrix option \<Rightarrow> error + matrix" where
  "variance pow_sum count mean =
    bind (div_count pow_sum count) (\<lambda>q.
      case mean of
        None \<Rightarrow> Inl TypeError
      | Some m \<Rightarrow> Inr (t_sub q (t_mul m m)))"

text \<open>Lines 218--220 and 239--241: a mean computed from scratch.\<close>

definition fresh_mean ::
  "matrix \<Rightarrow> int list \<Rightarrow> nat \<Rightarrow> nat \<Rightarrow> vector option \<Rightarrow> error + matrix" where
  "fresh_mean x index dim_size num_feats count =
    bind (scatter_reduce (new_full dim_size num_feats (Fin 0)) index num_feats x R_sum)
      (\<lambda>mean. div_count (Some mean) count)"

text \<open>Lines 202--212.\<close>

definition mean_stage ::
  "engine \<Rightarrow> vector option \<Rightarrow> matrix option list \<Rightarrow> error + matrix option list" where
  "mean_stage self count outs =
    (case aggr_index self MeanAggregation of
       None \<Rightarrow> Inr outs
     | Some i \<Rightarrow>
        bind (item (lookup_ops self) i) (\<lambda>l.
        bind (case l of
                None \<Rightarrow> item outs i
              | Some (tmp_aggr, j) \<Rightarrow>
                  if tmp_aggr = SumAggregation then item outs j else Inl AssertionError)
          (\<lambda>sum'.
        bind (div_count sum' count) (\<lambda>m. set_item outs i (Some m)))))"

text \<open>
  Lines 214--231. Beside the list, the stage returns the local variables \<open>pow_sum\<close>
  and \<open>mean\<close> if it has assigned them: the last stage can read them.
\<close>

definition var_stage ::
  "engine \<Rightarrow> matrix \<Rightarrow> int list \<Rightarrow> nat \<Rightarrow> nat \<Rightarrow> vector option \<Rightarrow> matrix option list
     \<Rightarrow> error + (matrix option list \<times> (matrix option \<times> matrix option) option)" where
  "var_stage self x index dim_size num_feats count outs =
    (case aggr_index self VarAggregation of
       None \<Rightarrow> Inr (outs, None)
     | Some i \<Rightarrow>
        bind (item (lookup_ops self) i) (\<lambda>l.
        bind (case l of
                None \<Rightarrow> bind (fresh_mean x index dim_size num_feats count) (\<lambda>m. Inr (Some m))
              | Some (tmp_aggr, j) \<Rightarrow>
                  if tmp_aggr = SumAggregation then
                    bind (item outs j) (\<lambda>s. bind (div_count s count) (\<lambda>m. Inr (Some m)))
                  else if tmp_aggr = MeanAggregation then item outs j
                  else Inl NotImplementedError)
          (\<lambda>mean.
        bind (item outs i) (\<lambda>pow_sum.
        bind (variance pow_sum count mean) (\<lambda>v.
        bind (set_item outs i (Some v)) (\<lambda>outs'. Inr (outs', Some (pow_sum, mean))))))))"

text \<open>Lines 233--258; \<open>locals\<close> are \<open>pow_sum\<close> and \<open>mean\<close> as the stage before left them.\<close>

definition std_stage ::
  "engine \<Rightarrow> matrix \<Rightarrow> int list \<Rightarrow> nat \<Rightarrow> nat \<Rightarrow> vector option
     \<Rightarrow> (matrix option \<times> matrix option) option \<Rightarrow> matrix option list
     \<Rightarrow> error + matrix option list" where
  "std_stage self x index dim_size num_feats count locals outs =
    (case aggr_index self StdAggregation of
       None \<Rightarrow> Inr outs
     | Some i \<Rightarrow>
        bind (item (lookup_ops self) i) (\<lambda>l.
        bind (case l of
                None \<Rightarrow>
                  bind (item outs i) (\<lambda>pow_sum.
                  bind (fresh_mean x index dim_size num_feats count) (\<lambda>m.
                  Inr (None, Some (pow_sum, Some m))))
              | Some (tmp_aggr, j) \<Rightarrow>
                  if tmp_aggr = VarAggregation then
                    bind (item outs j) (\<lambda>var. Inr (var, locals))
                  else if tmp_aggr = SumAggregation then
                    bind (item outs i) (\<lambda>pow_sum.
                    bind (item outs j) (\<lambda>s.
                    bind (div_count s count) (\<lambda>m. Inr (None, Some (pow_sum, Some m)))))
                  else if tmp_aggr = MeanAggregation then
                    bind (item outs i) (\<lambda>pow_sum.
                    bind (item outs j) (\<lambda>mean. Inr (None, Some (pow_sum, mean))))
                  else Inl NotImplementedError)
          (\<lambda>(var, locals').
        bind (case var of
                Some v \<Rightarrow> Inr v
              | None \<Rightarrow>
                 (case locals' of
                    None \<Rightarrow> Inl UnboundLocalError
                  | Some (pow_sum, mean) \<Rightarrow> variance pow_sum count mean))
          (\<lambda>var'.
        set_item outs i (Some (t_sqrt (t_add_scalar (t_relu var') (1 / 100000))))))))"

text \<open>
  \<open>torch.cat(outs, dim=-1)\<close>: the rows of the blocks side by side. A list with a
  \<open>None\<close> is a \<open>TypeError\<close>; an empty list, or blocks with different numbers of rows, a
  \<open>RuntimeError\<close>.
\<close>

definition hcat :: "matrix list \<Rightarrow> matrix" where
  "hcat blocks = map (\<lambda>g. concat (map (\<lambda>b. b ! g) blocks)) [0..<length (hd blocks)]"

definition cat :: "matrix option list \<Rightarrow> error + matrix" where
  "cat outs =
    (if None \<in> set outs then Inl TypeError
     else if outs = [] then Inl RuntimeError
     else if \<exists>b \<in> set outs. length (the b) \<noteq> length (the (hd outs)) then Inl RuntimeError
     else Inr (hcat (map the outs)))"

text \<open>
  \<open>forward(x, index, dim_size=dim_size)\<close>. The arguments \<open>ptr\<close> and \<open>dim\<close> are not
  read by the body of \<open>forward\<close> apart from \<open>dim\<close> being passed to
  \<open>assert_two_dimensional_input\<close>; they keep their defaults.
\<close>

definition forward :: "engine \<Rightarrow> tensor \<Rightarrow> int list \<Rightarrow> nat \<Rightarrow> error + matrix" where
  "forward self x index dim_size =
    bind (assert_two_dimensional_input x) (\<lambda>(num_feats, xs).
    bind (group_statistics self xs index dim_size) (\<lambda>(count, msk).
    bind (base_loop xs index dim_size num_feats msk (reduce_ops self)) (\<lambda>outs.
    bind (mean_stage self count outs) (\<lambda>outs.
    bind (var_stage self xs index dim_size num_feats count outs) (\<lambda>(outs, locals).
    bind (std_stage self xs index dim_size num_feats count locals outs) (\<lambda>outs.
    cat outs))))))"

text \<open>Building the engine and calling it once.\<close>

definition run :: "aggr list \<Rightarrow> tensor \<Rightarrow> int list \<Rightarrow> nat \<Rightarrow> error + matrix" where
  "run aggrs x index dim_size = bind (init aggrs) (\<lambda>self. forward self x index dim_size)"

section \<open>The aggregations as the specification words them\<close>

text \<open>
  The definitions of this section follow the specification, not the code; the code is
  compared with them below. The specification's grouped-reduce primitive takes the
  values, the group index, the operation, the number of groups and the fill value, and
  returns one row per group: the rows of the group combined, in their order, onto a row
  of fill values, so that a group without rows keeps the fill value.
\<close>

definition group_rows :: "int list \<Rightarrow> 'b list \<Rightarrow> nat \<Rightarrow> 'b list" where
  "group_rows index src g = map snd (filter (\<lambda>(i, s). i = int g) (zip index src))"

definition grouped_reduce ::
  "(fnum \<Rightarrow> fnum \<Rightarrow> fnum) \<Rightarrow> fnum \<Rightarrow> matrix \<Rightarrow> int list \<Rightarrow> nat \<Rightarrow> nat \<Rightarrow> matrix" where
  "grouped_reduce opr fill vals index G F =
     map (\<lambda>g. foldl (map2 opr) (replicate F fill) (group_rows index vals g)) [0..<G]"

text \<open>The number of elements of a group, the count clamped below at 1, and the
  emptiness mask.\<close>

definition group_count :: "int list \<Rightarrow> nat \<Rightarrow> nat" where
  "group_count index g = length (filter (\<lambda>i. i = int g) index)"

definition spec_count :: "int list \<Rightarrow> nat \<Rightarrow> vector" where
  "spec_count index G = map (\<lambda>g. Fin (real (max 1 (group_count index g)))) [0..<G]"

definition spec_empty :: "int list \<Rightarrow> nat \<Rightarrow> bool list" where
  "spec_empty index G = map (\<lambda>g. group_count index g = 0) [0..<G]"

text \<open>
  Modelled from the spec: the aggregation of one kind computed alone. The classes
  \<open>SumAggregation\<close>, ..., \<open>StdAggregation\<close> that compute a kind unfused are imported
  by the source file but are not part of the sources at hand. The definition takes the
  base reductions of the table of section 4.2, with the rows of empty groups overwritten
  by zero where the fill value is not zero, and the derived statistics of section 4.3:
  \<open>mean = sum / clamped_count\<close>, \<open>variance = pow_sum / clamped_count - mean\<^sup>2\<close>
  and \<open>stddev = sqrt(max(variance, 0) + 1e-5)\<close>.
\<close>

definition spec_pow_sum :: "matrix \<Rightarrow> int list \<Rightarrow> nat \<Rightarrow> nat \<Rightarrow> matrix" where
  "spec_pow_sum xs index G F = grouped_reduce fadd (Fin 0) (t_mul xs xs) index G F"

fun spec_aggregate :: "aggr \<Rightarrow> matrix \<Rightarrow> int list \<Rightarrow> nat \<Rightarrow> nat \<Rightarrow> matrix" where
  "spec_aggregate SumAggregation xs index G F = grouped_reduce fadd (Fin 0) xs index G F"
| "spec_aggregate MinAggregation xs index G F =
     masked_fill (grouped_reduce fmin PInf xs index G F) (spec_empty index G) (Fin 0)"
| "spec_aggregate MaxAggregation xs index G F =
     masked_fill (grouped_reduce fmax NInf xs index G F) (spec_empty index G) (Fin 0)"
| "spec_aggregate MulAggregation xs index G F =
     masked_fill (grouped_reduce fmul (Fin 1) xs index G F) (spec_empty index G) (Fin 0)"
| "spec_aggregate MeanAggregation xs index G F =
     t_div_col (grouped_reduce fadd (Fin 0) xs index G F) (spec_count index G)"
| "spec_aggregate VarAggregation xs index G F =
     (let mean = t_div_col (grouped_reduce fadd (Fin 0) xs index G F) (spec_count index G)
      in t_sub (t_div_col (spec_pow_sum xs index G F) (spec_count index G)) (t_mul mean mean))"
| "spec_aggregate StdAggregation xs index G F =
     (let mean = t_div_col (grouped_reduce fadd (Fin 0) xs index G F) (spec_count index G);
          var = t_sub (t_div_col (spec_pow_sum xs index G F) (spec_count index G))
                  (t_mul mean mean)
      in t_sqrt (t_add_scalar (t_relu var) (1 / 100000)))"
| "spec_aggregate OtherAggregation xs index G F = []"

text \<open>
  A valid input: \<open>N\<close> rows of \<open>F\<close> features and a group index of length \<open>N\<close> with
  values in \<open>[0, G)\<close>.
\<close>

definition valid_input :: "nat \<Rightarrow> real list list \<Rightarrow> int list \<Rightarrow> nat \<Rightarrow> bool" where
  "valid_input F rows index G \<longleftrightarrow>
     (\<forall>r \<in> set rows. length r = F) \<and> length index = length rows \<and>
     (\<forall>i \<in> set index. 0 \<le> i \<and> i < int G)"

text \<open>Block \<open>i\<close> of an output: the columns \<open>[i * F, (i + 1) * F)\<close>.\<close>

definition block :: "nat \<Rightarrow> nat \<Rightarrow> matrix \<Rightarrow> matrix" where
  "block F i out = map (\<lambda>row. take F (drop (i * F) row)) out"

section \<open>Auxiliary notions for the proofs\<close>

text \<open>
  The index as the scatter primitives accept it; the result of one base reduction, of the
  loop over \<open>reduce_ops\<close>, and of writing the slot of a derived kind; the list of
  outputs when the last stage is done.
\<close>

definition valid_index :: "int list \<Rightarrow> nat \<Rightarrow> nat \<Rightarrow> bool" where
  "valid_index index G N \<longleftrightarrow> (\<forall>i \<in> set index. 0 \<le> i \<and> i < int G) \<and> length index \<le> N"

fun base_block :: "reduce \<Rightarrow> matrix \<Rightarrow> int list \<Rightarrow> nat \<Rightarrow> nat \<Rightarrow> matrix" where
  "base_block R_sum xs index G F = spec_aggregate SumAggregation xs index G F"
| "base_block R_amin xs index G F = spec_aggregate MinAggregation xs index G F"
| "base_block R_amax xs index G F = spec_aggregate MaxAggregation xs index G F"
| "base_block R_prod xs index G F = spec_aggregate MulAggregation xs index G F"
| "base_block R_pow_sum xs index G F = spec_pow_sum xs index G F"

definition base_outs :: "aggr list \<Rightarrow> matrix \<Rightarrow> int list \<Rightarrow> nat \<Rightarrow> nat \<Rightarrow> matrix option list" where
  "base_outs aggrs xs index G F =
     map (\<lambda>k. map_option (\<lambda>r. base_block r xs index G F)
                (fst (plan_entry (make_aggr_index aggrs) k))) aggrs"

definition put ::
  "aggr list \<Rightarrow> aggr \<Rightarrow> matrix \<Rightarrow> int list \<Rightarrow> nat \<Rightarrow> nat \<Rightarrow> matrix option list
     \<Rightarrow> matrix option list" where
  "put aggrs k xs index G F outs =
     (case make_aggr_index aggrs k of
        None \<Rightarrow> outs
      | Some i \<Rightarrow> outs[i := Some (spec_aggregate k xs index G F)])"

definition final_outs :: "aggr list \<Rightarrow> matrix \<Rightarrow> int list \<Rightarrow> nat \<Rightarrow> nat \<Rightarrow> matrix option list" where
  "final_outs aggrs xs index G F =
     put aggrs StdAggregation xs index G F
       (put aggrs VarAggregation xs index G F
         (put aggrs MeanAggregation xs index G F (base_outs aggrs xs index G F)))"

definition shape :: "nat \<Rightarrow> nat \<Rightarrow> matrix \<Rightarrow> bool" where
  "shape G F m \<longleftrightarrow> length m = G \<and> (\<forall>r \<in> set m. length r = F)"



section \<open>Facts about the index table\<close>

lemma dict_of_enumerate:
  "dict_of (enumerate_from n xs) m c =
     (if c \<in> set xs then Some (n + (GREATEST i. i < length xs \<and> xs ! i = c)) else m c)"
proof (induction xs arbitrary: n m)
  case Nil
  then show ?case by simp
next
  case (Cons x xs)
  show ?case
  proof (cases "c \<in> set xs")
    case True
    define P where "P = (\<lambda>i. i < length xs \<and> xs ! i = c)"
    define Q where "Q = (\<lambda>i. i < length (x # xs) \<and> (x # xs) ! i = c)"
    from True obtain k where k: "P k" by (auto simp: P_def in_set_conv_nth)
    have bP: "\<And>i. P i \<Longrightarrow> i \<le> length xs" by (simp add: P_def)
    have bQ: "\<And>i. Q i \<Longrightarrow> i \<le> length (x # xs)" by (simp add: Q_def)
    have gP: "P (Greatest P)" using GreatestI_nat[of P k "length xs"] k bP by blast
    have QS: "Q (Suc (Greatest P))" using gP by (simp add: P_def Q_def)
    have "Greatest Q = Suc (Greatest P)"
    proof (rule Greatest_equality)
      show "Q (Suc (Greatest P))" by (rule QS)
    next
      fix y assume y: "Q y"
      show "y \<le> Suc (Greatest P)"
      proof (cases y)
        case 0
        then show ?thesis by simp
      next
        case (Suc z)
        with y have "P z" by (simp add: P_def Q_def)
        then have "z \<le> Greatest P" using Greatest_le_nat[of P z "length xs"] bP by blast
        with Suc show ?thesis by simp
      qed
    qed
    then show ?thesis using True Cons.IH[of "Suc n" "m(x \<mapsto> n)"]
      by (simp add: P_def Q_def del: fun_upd_apply)
  next
    case False
    show ?thesis
    proof (cases "c = x")
      case True
      have "(GREATEST i. i < length (x # xs) \<and> (x # xs) ! i = c) = 0"
      proof (rule Greatest_equality)
        show "0 < length (x # xs) \<and> (x # xs) ! 0 = c" using True by simp
      next
        fix y assume y: "y < length (x # xs) \<and> (x # xs) ! y = c"
        show "y \<le> 0"
        proof (cases y)
          case 0
          then show ?thesis by simp
        next
          case (Suc z)
          with y have "xs ! z = c" "z < length xs" by simp_all
          then have "c \<in> set xs" by (auto simp: in_set_conv_nth)
          with False show ?thesis by simp
        qed
      qed
      then show ?thesis using False True Cons.IH[of "Suc n" "m(x \<mapsto> n)"]
        by (simp del: fun_upd_apply) simp
    next
      case neq: False
      then show ?thesis using False Cons.IH[of "Suc n" "m(x \<mapsto> n)"]
        by (simp del: fun_upd_apply) simp
    qed
  qed
qed

lemma aggr_index_None: "make_aggr_index xs c = None \<longleftrightarrow> c \<notin> set xs"
  by (simp add: make_aggr_index_def dict_of_enumerate)

lemma aggr_index_Some:
  assumes "make_aggr_index xs c = Some i"
  shows "i < length xs \<and> xs ! i = c \<and> (\<forall>j < length xs. xs ! j = c \<longrightarrow> j \<le> i)"
proof -
  define P where "P = (\<lambda>i. i < length xs \<and> xs ! i = c)"
  from assms have mem: "c \<in> set xs" and i: "i = Greatest P"
    by (auto simp: make_aggr_index_def dict_of_enumerate P_def split: if_splits)
  from mem obtain k where k: "P k" by (auto simp: P_def in_set_conv_nth)
  have bP: "\<And>i. P i \<Longrightarrow> i \<le> length xs" by (simp add: P_def)
  have gP: "P (Greatest P)" using GreatestI_nat[of P k "length xs"] k bP by blast
  have "\<And>j. P j \<Longrightarrow> j \<le> Greatest P" using Greatest_le_nat[of P _ "length xs"] bP by blast
  then show ?thesis using gP i by (auto simp: P_def)
qed

lemma aggr_index_distinct:
  assumes "distinct xs" "i < length xs"
  shows "make_aggr_index xs (xs ! i) = Some i"
proof -
  have "xs ! i \<in> set xs" using assms by simp
  then obtain j where j: "make_aggr_index xs (xs ! i) = Some j"
    using aggr_index_None[of xs "xs ! i"] by (cases "make_aggr_index xs (xs ! i)") auto
  from aggr_index_Some[OF j] have "j < length xs" "xs ! j = xs ! i" by simp_all
  with assms have "j = i" by (simp add: nth_eq_iff_index_eq)
  with j show ?thesis by simp
qed

section \<open>Facts about the plan\<close>

lemma init_fields:
  assumes "init aggrs = Inr self"
  shows "aggrs \<noteq> []" and "set aggrs \<subseteq> FUSABLE_AGGRS"
    and "aggr_cls self = aggrs"
    and "aggr_index self = make_aggr_index aggrs"
    and "need_degree self = (\<exists>cls \<in> set aggrs. cls \<in> DEGREE_BASED_AGGRS)"
    and "requires_mask self = (\<exists>cls \<in> set aggrs. cls \<in> MASK_REQUIRED_AGGRS)"
    and "reduce_ops self = map (\<lambda>cls. fst (plan_entry (make_aggr_index aggrs) cls)) aggrs"
    and "lookup_ops self = map (\<lambda>cls. snd (plan_entry (make_aggr_index aggrs) cls)) aggrs"
  using assms by (auto simp: init_def Let_def split: if_splits)

lemma init_ok:
  assumes "aggrs \<noteq> []" "set aggrs \<subseteq> FUSABLE_AGGRS"
  shows "\<exists>self. init aggrs = Inr self"
  using assms by (auto simp: init_def Let_def)

lemma aggr_index_mem:
  "c \<in> set xs \<Longrightarrow> \<exists>j. make_aggr_index xs c = Some j \<and> j < length xs \<and> xs ! j = c"
proof -
  assume "c \<in> set xs"
  then obtain j where j: "make_aggr_index xs c = Some j"
    using aggr_index_None[of xs c] by (cases "make_aggr_index xs c") auto
  with aggr_index_Some[OF j] show ?thesis by simp
qed

lemma plan_entry_Mean:
  "plan_entry idx MeanAggregation =
     (case idx SumAggregation of
        Some j \<Rightarrow> (None, Some (SumAggregation, j))
      | None \<Rightarrow> (Some R_sum, None))"
  by (simp add: plan_entry_def split: option.splits)

lemma plan_entry_Var:
  "plan_entry idx VarAggregation =
     (Some R_pow_sum,
      case idx MeanAggregation of
        Some j \<Rightarrow> Some (MeanAggregation, j)
      | None \<Rightarrow> (case idx SumAggregation of
                  Some j \<Rightarrow> Some (SumAggregation, j)
                | None \<Rightarrow> None))"
  by (simp add: plan_entry_def split: option.splits)

lemma plan_entry_Std:
  "plan_entry idx StdAggregation =
     (case idx VarAggregation of
        Some j \<Rightarrow> (None, Some (VarAggregation, j))
      | None \<Rightarrow>
         (Some R_pow_sum,
          case idx MeanAggregation of
            Some j \<Rightarrow> Some (MeanAggregation, j)
          | None \<Rightarrow> (case idx SumAggregation of
                      Some j \<Rightarrow> Some (SumAggregation, j)
                    | None \<Rightarrow> None)))"
  by (simp add: plan_entry_def split: option.splits)

lemma plan_entry_base:
  "cls \<in> {SumAggregation, MinAggregation, MaxAggregation, MulAggregation}
     \<Longrightarrow> plan_entry idx cls = (REDUCE cls, None)"
  by (auto simp: plan_entry_def)

section \<open>No stage reaches the branches for an inconsistent reuse chain\<close>

lemma bind_eq_Inl_iff:
  "bind m f = Inl e \<longleftrightarrow> m = Inl e \<or> (\<exists>v. m = Inr v \<and> f v = Inl e)"
  by (cases m) (auto simp: bind_def)

lemma bind_Inr [simp]: "bind (Inr v) f = f v"
  by (simp add: bind_def)

lemma bind_Inl [simp]: "bind (Inl e) f = Inl e"
  by (simp add: bind_def)

text \<open>
  The two errors of the reuse chain: the \<open>NotImplementedError\<close> of the variance and
  standard-deviation stages and the failed \<open>assert\<close> of the mean stage.
\<close>

lemma scatter_loop_not_fatal:
  "e = NotImplementedError \<or> e = AssertionError \<Longrightarrow> scatter_loop f out index src \<noteq> Inl e"
  by (induction f out index src rule: scatter_loop.induct) auto

lemma index_put_False_not_fatal:
  "e = NotImplementedError \<or> e = AssertionError \<Longrightarrow> index_put_False msk index \<noteq> Inl e"
  by (induction msk index rule: index_put_False.induct) (auto simp: Let_def)

lemma scatter_reduce_not_fatal:
  "e = NotImplementedError \<or> e = AssertionError \<Longrightarrow>
     scatter_reduce out index num_feats src reduce \<noteq> Inl e"
  by (auto simp: scatter_reduce_def scatter_loop_not_fatal)

lemma item_not_fatal:
  "e = NotImplementedError \<or> e = AssertionError \<Longrightarrow> item xs i \<noteq> Inl e"
  by (auto simp: item_def)

lemma set_item_not_fatal:
  "e = NotImplementedError \<or> e = AssertionError \<Longrightarrow> set_item xs i v \<noteq> Inl e"
  by (auto simp: set_item_def)

lemma div_count_not_fatal:
  "e = NotImplementedError \<or> e = AssertionError \<Longrightarrow> div_count t count \<noteq> Inl e"
  by (auto simp: div_count_def split: option.splits)

lemma variance_not_fatal:
  "e = NotImplementedError \<or> e = AssertionError \<Longrightarrow> variance pow_sum count mean \<noteq> Inl e"
  by (auto simp: variance_def bind_eq_Inl_iff div_count_not_fatal split: option.splits)

lemma fresh_mean_not_fatal:
  "e = NotImplementedError \<or> e = AssertionError \<Longrightarrow>
     fresh_mean x index dim_size num_feats count \<noteq> Inl e"
  by (auto simp: fresh_mean_def bind_eq_Inl_iff div_count_not_fatal scatter_reduce_not_fatal)

lemma group_statistics_not_fatal:
  "e = NotImplementedError \<or> e = AssertionError \<Longrightarrow>
     group_statistics self x index dim_size \<noteq> Inl e"
  by (auto simp: group_statistics_def scatter_add_def bind_eq_Inl_iff
        scatter_loop_not_fatal index_put_False_not_fatal)

lemma reduce_one_not_fatal:
  "e = NotImplementedError \<or> e = AssertionError \<Longrightarrow>
     reduce_one x index dim_size num_feats msk reduce \<noteq> Inl e"
  by (auto simp: reduce_one_def Let_def bind_eq_Inl_iff scatter_reduce_not_fatal
        split: option.splits)

lemma base_loop_not_fatal:
  "e = NotImplementedError \<or> e = AssertionError \<Longrightarrow>
     base_loop x index dim_size num_feats msk ops \<noteq> Inl e"
  by (induction x index dim_size num_feats msk ops rule: base_loop.induct)
     (auto simp: bind_eq_Inl_iff reduce_one_not_fatal)

lemma cat_not_fatal:
  "e = NotImplementedError \<or> e = AssertionError \<Longrightarrow> cat outs \<noteq> Inl e"
  by (auto simp: cat_def)

text \<open>The recorded reuse target of a plan built by the constructor.\<close>

lemma lookup_at_index:
  assumes "init aggrs = Inr self" and "aggr_index self c = Some i"
  shows "item (lookup_ops self) i = Inr (snd (plan_entry (make_aggr_index aggrs) c))"
    and "item (reduce_ops self) i = Inr (fst (plan_entry (make_aggr_index aggrs) c))"
    and "i < length aggrs" and "aggrs ! i = c"
proof -
  from assms have "make_aggr_index aggrs c = Some i" by (simp add: init_fields)
  from aggr_index_Some[OF this] have i: "i < length aggrs" "aggrs ! i = c" by simp_all
  then show "i < length aggrs" "aggrs ! i = c" by simp_all
  from i show "item (lookup_ops self) i = Inr (snd (plan_entry (make_aggr_index aggrs) c))"
    by (simp add: item_def init_fields[OF assms(1)])
  from i show "item (reduce_ops self) i = Inr (fst (plan_entry (make_aggr_index aggrs) c))"
    by (simp add: item_def init_fields[OF assms(1)])
qed

lemma mean_stage_not_fatal:
  assumes "init aggrs = Inr self" and "e = NotImplementedError \<or> e = AssertionError"
  shows "mean_stage self count outs \<noteq> Inl e"
proof (cases "aggr_index self MeanAggregation")
  case None
  then show ?thesis by (simp add: mean_stage_def)
next
  case (Some i)
  show ?thesis using assms(2)
    by (auto simp: mean_stage_def Some lookup_at_index(1)[OF assms(1) Some] plan_entry_Mean
          bind_eq_Inl_iff item_not_fatal set_item_not_fatal div_count_not_fatal
          split: option.splits)
qed

lemma var_stage_not_fatal:
  assumes "init aggrs = Inr self" and "e = NotImplementedError \<or> e = AssertionError"
  shows "var_stage self x index dim_size num_feats count outs \<noteq> Inl e"
proof (cases "aggr_index self VarAggregation")
  case None
  then show ?thesis by (simp add: var_stage_def)
next
  case (Some i)
  show ?thesis using assms(2)
    by (auto simp: var_stage_def Some lookup_at_index(1)[OF assms(1) Some] plan_entry_Var
          bind_eq_Inl_iff item_not_fatal set_item_not_fatal div_count_not_fatal
          variance_not_fatal fresh_mean_not_fatal
          split: option.splits)
qed

lemma std_stage_not_fatal:
  assumes "init aggrs = Inr self" and "e = NotImplementedError \<or> e = AssertionError"
  shows "std_stage self x index dim_size num_feats count locals outs \<noteq> Inl e"
proof (cases "aggr_index self StdAggregation")
  case None
  then show ?thesis by (simp add: std_stage_def)
next
  case (Some i)
  show ?thesis using assms(2)
    by (auto simp: std_stage_def Some lookup_at_index(1)[OF assms(1) Some] plan_entry_Std
          bind_eq_Inl_iff item_not_fatal set_item_not_fatal div_count_not_fatal
          variance_not_fatal fresh_mean_not_fatal
          split: option.splits)
qed

lemma forward_not_fatal:
  assumes "init aggrs = Inr self" and "e = NotImplementedError \<or> e = AssertionError"
  shows "forward self x index dim_size \<noteq> Inl e"
proof
  assume "forward self x index dim_size = Inl e"
  then show False
    using assms(2) group_statistics_not_fatal[OF assms(2)] base_loop_not_fatal[OF assms(2)]
      mean_stage_not_fatal[OF assms] var_stage_not_fatal[OF assms]
      std_stage_not_fatal[OF assms] cat_not_fatal[OF assms(2)]
    by (auto simp: forward_def bind_eq_Inl_iff assert_two_dimensional_input_def
          split: tensor.splits)
qed

section \<open>The scatter loop, group by group\<close>

lemma group_rows_Nil [simp]: "group_rows [] src g = []"
  by (simp add: group_rows_def)

lemma group_rows_Cons [simp]:
  "group_rows (i # index) (s # src) g =
     (if i = int g then s # group_rows index src g else group_rows index src g)"
  by (simp add: group_rows_def)

lemma scatter_loop_closed:
  assumes "\<forall>i \<in> set index. 0 \<le> i \<and> i < int (length out)" and "length index \<le> length src"
  shows "scatter_loop f out index src =
           Inr (map (\<lambda>g. foldl f (out ! g) (group_rows index src g)) [0..<length out])"
  using assms
proof (induction f out index src rule: scatter_loop.induct)
  case (1 f out src)
  then show ?case by (simp add: map_nth)
next
  case (2 f out i index)
  then show ?case by simp
next
  case (3 f out i index s src)
  let ?out = "out[nat i := f (out ! nat i) s]"
  from 3(2) have i: "0 \<le> i" "i < int (length out)" by simp_all
  have "scatter_loop f ?out index src =
          Inr (map (\<lambda>g. foldl f (?out ! g) (group_rows index src g)) [0..<length ?out])"
    using 3 i by simp
  moreover have "map (\<lambda>g. foldl f (?out ! g) (group_rows index src g)) [0..<length ?out]
      = map (\<lambda>g. foldl f (out ! g) (group_rows (i # index) (s # src) g)) [0..<length out]"
  proof (rule map_cong)
    show "[0..<length ?out] = [0..<length out]" by simp
  next
    fix g assume "g \<in> set [0..<length out]"
    then have g: "g < length out" by simp
    show "foldl f (?out ! g) (group_rows index src g)
            = foldl f (out ! g) (group_rows (i # index) (s # src) g)"
    proof (cases "i = int g")
      case True
      then have "nat i = g" by simp
      with g True show ?thesis by simp
    next
      case False
      with i have "nat i \<noteq> g" by auto
      with False show ?thesis by simp
    qed
  qed
  ultimately show ?case using i by simp
qed

lemma group_rows_replicate:
  "length index \<le> N \<Longrightarrow> group_rows index (replicate N v) g = replicate (group_count index g) v"
proof (induction index arbitrary: N)
  case Nil
  then show ?case by (simp add: group_count_def)
next
  case (Cons i index)
  then obtain M where N: "N = Suc M" by (cases N) auto
  with Cons show ?case by (simp add: group_count_def)
qed

lemma foldl_fadd_ones: "foldl fadd (Fin a) (replicate n (Fin 1)) = Fin (a + real n)"
  by (induction n arbitrary: a) (simp_all add: algebra_simps)

lemma group_count_zero: "group_count index g = 0 \<longleftrightarrow> int g \<notin> set index"
  by (auto simp: group_count_def filter_empty_conv)

lemma scatter_add_count:
  assumes "\<forall>i \<in> set index. 0 \<le> i \<and> i < int G" and "length index \<le> N"
  shows "scatter_add (replicate G (Fin 0)) index (replicate N (Fin 1)) =
           Inr (map (\<lambda>g. Fin (real (group_count index g))) [0..<G])"
  using assms
  by (simp add: scatter_add_def scatter_loop_closed group_rows_replicate foldl_fadd_ones)

lemma index_put_False_closed:
  assumes "\<forall>i \<in> set index. 0 \<le> i \<and> i < int (length msk)"
  shows "index_put_False msk index =
           Inr (map (\<lambda>g. msk ! g \<and> int g \<notin> set index) [0..<length msk])"
  using assms
proof (induction msk index rule: index_put_False.induct)
  case (1 msk)
  then show ?case by (simp add: map_nth)
next
  case (2 msk i index)
  from 2(2) have i: "0 \<le> i" "i < int (length msk)" by simp_all
  let ?m = "msk[nat i := False]"
  have "index_put_False ?m index =
          Inr (map (\<lambda>g. ?m ! g \<and> int g \<notin> set index) [0..<length ?m])"
    using 2 i by (simp add: Let_def)
  moreover have "map (\<lambda>g. ?m ! g \<and> int g \<notin> set index) [0..<length ?m]
      = map (\<lambda>g. msk ! g \<and> int g \<notin> set (i # index)) [0..<length msk]"
    using i by (auto simp: nth_list_update)
  ultimately show ?case using i by (simp add: Let_def)
qed

lemma foldl_map2_Nil [simp]: "foldl (map2 f) [] rows = []"
  by (induction rows) simp_all

lemma replicate_as_map: "replicate n x = map (\<lambda>_. x) [0..<n]"
  by (simp add: map_replicate_const)

lemma scatter_reduce_closed:
  assumes "valid_index index G (length src)" and "r \<noteq> R_pow_sum"
  shows "scatter_reduce (new_full G F fill) index F src r =
           Inr (grouped_reduce (reduce_fn r) fill src index G F)"
proof (cases "index = [] \<or> F = 0")
  case True
  then show ?thesis using assms(2)
    by (auto simp: scatter_reduce_def new_full_def grouped_reduce_def replicate_as_map)
next
  case False
  have "map (\<lambda>g. foldl (map2 (reduce_fn r)) (replicate G (replicate F fill) ! g)
                 (group_rows index src g)) [0..<G]
        = map (\<lambda>g. foldl (map2 (reduce_fn r)) (replicate F fill)
                 (group_rows index src g)) [0..<G]"
    by (rule map_cong) simp_all
  with False assms show ?thesis
    by (simp add: scatter_reduce_def new_full_def grouped_reduce_def valid_index_def
          scatter_loop_closed)
qed

lemma group_statistics_closed:
  assumes "valid_index index G (length xs)"
  shows "group_statistics self xs index G =
           Inr (if need_degree self then Some (spec_count index G) else None,
                if requires_mask self then Some (spec_empty index G) else None)"
proof (cases "need_degree self")
  case True
  have c: "scatter_add (replicate G (Fin 0)) index (replicate (length xs) (Fin 1)) =
           Inr (map (\<lambda>g. Fin (real (group_count index g))) [0..<G])"
    using assms by (simp add: valid_index_def scatter_add_count)
  have "\<And>n. clamp_min (Fin 1) (Fin (real n)) = Fin (real (max 1 n))"
    by (simp add: max_def)
  then show ?thesis using True
    by (simp add: group_statistics_def c spec_count_def spec_empty_def comp_def)
next
  case False
  have "index_put_False (replicate G True) index =
          Inr (map (\<lambda>g. replicate G True ! g \<and> int g \<notin> set index) [0..<length (replicate G True)])"
    using assms by (intro index_put_False_closed) (simp add: valid_index_def)
  also have "map (\<lambda>g. replicate G True ! g \<and> int g \<notin> set index) [0..<length (replicate G True)]
      = spec_empty index G"
    unfolding spec_empty_def by (rule map_cong) (simp_all add: group_count_zero)
  finally show ?thesis using False by (simp add: group_statistics_def)
qed

lemma reduce_one_closed:
  assumes "valid_index index G (length xs)"
    and "r \<in> {R_amin, R_amax, R_prod} \<longrightarrow> msk = Some (spec_empty index G)"
  shows "reduce_one xs index G F msk r = Inr (base_block r xs index G F)"
proof -
  have len: "length (t_mul xs xs) = length xs" by (simp add: t_mul_def)
  show ?thesis
  proof (cases r)
    case R_sum
    then show ?thesis using assms(1)
      by (simp add: reduce_one_def fill_value_of_def scatter_reduce_closed)
  next
    case R_amin
    then show ?thesis using assms
      by (simp add: reduce_one_def fill_value_of_def scatter_reduce_closed)
  next
    case R_amax
    then show ?thesis using assms
      by (simp add: reduce_one_def fill_value_of_def scatter_reduce_closed)
  next
    case R_prod
    then show ?thesis using assms
      by (simp add: reduce_one_def fill_value_of_def scatter_reduce_closed)
  next
    case R_pow_sum
    have "valid_index index G (length (t_mul xs xs))" using assms(1) len by simp
    then show ?thesis using R_pow_sum
      by (simp add: reduce_one_def fill_value_of_def scatter_reduce_closed spec_pow_sum_def)
  qed
qed

lemma base_loop_closed:
  assumes "valid_index index G (length xs)"
    and "\<forall>r \<in> {R_amin, R_amax, R_prod}. Some r \<in> set ops \<longrightarrow> msk = Some (spec_empty index G)"
  shows "base_loop xs index G F msk ops =
           Inr (map (map_option (\<lambda>r. base_block r xs index G F)) ops)"
  using assms(2)
proof (induction ops)
  case Nil
  then show ?case by simp
next
  case (Cons a ops)
  have IH: "base_loop xs index G F msk ops =
           Inr (map (map_option (\<lambda>r. base_block r xs index G F)) ops)"
    using Cons by auto
  show ?case
  proof (cases a)
    case None
    then show ?thesis by (simp add: IH)
  next
    case (Some r)
    have "r \<in> {R_amin, R_amax, R_prod} \<longrightarrow> msk = Some (spec_empty index G)"
      using Cons.prems Some by auto
    from reduce_one_closed[OF assms(1) this] show ?thesis by (simp add: Some IH)
  qed
qed

lemma length_base_outs [simp]: "length (base_outs aggrs xs index G F) = length aggrs"
  by (simp add: base_outs_def)

lemma length_put [simp]: "length (put aggrs k xs index G F outs) = length outs"
  by (simp add: put_def split: option.splits)

lemma put_nth:
  "i < length outs \<Longrightarrow>
   put aggrs k xs index G F outs ! i =
     (if make_aggr_index aggrs k = Some i then Some (spec_aggregate k xs index G F)
      else outs ! i)"
  by (auto simp: put_def nth_list_update split: option.splits)

lemma base_outs_nth:
  "i < length aggrs \<Longrightarrow>
   base_outs aggrs xs index G F ! i =
     map_option (\<lambda>r. base_block r xs index G F)
       (fst (plan_entry (make_aggr_index aggrs) (aggrs ! i)))"
  by (simp add: base_outs_def)

lemma plan_entry_needs_mask:
  assumes "fst (plan_entry idx k) = Some r" and "r \<in> {R_amin, R_amax, R_prod}"
  shows "k \<in> MASK_REQUIRED_AGGRS"
  using assms
  by (cases k) (auto simp: plan_entry_def MASK_REQUIRED_AGGRS_def split: option.splits)

lemma need_degree_mem:
  assumes "init aggrs = Inr self" and "make_aggr_index aggrs k = Some i"
    and "k \<in> DEGREE_BASED_AGGRS"
  shows "need_degree self"
proof -
  from aggr_index_Some[OF assms(2)] have "k \<in> set aggrs" by auto
  with assms(3) show ?thesis by (auto simp: init_fields[OF assms(1)])
qed

lemma base_loop_init:
  assumes "init aggrs = Inr self" and "valid_index index G (length xs)"
  shows "base_loop xs index G F
           (if requires_mask self then Some (spec_empty index G) else None) (reduce_ops self)
         = Inr (base_outs aggrs xs index G F)"
proof -
  let ?msk = "if requires_mask self then Some (spec_empty index G) else None"
  have "\<forall>r \<in> {R_amin, R_amax, R_prod}. Some r \<in> set (reduce_ops self) \<longrightarrow>
          ?msk = Some (spec_empty index G)"
  proof (intro ballI impI)
    fix r assume r: "r \<in> {R_amin, R_amax, R_prod}" and "Some r \<in> set (reduce_ops self)"
    then obtain k where k: "k \<in> set aggrs" "fst (plan_entry (make_aggr_index aggrs) k) = Some r"
      by (auto simp: init_fields[OF assms(1)])
    from plan_entry_needs_mask[OF k(2) r] k(1) have "requires_mask self"
      by (auto simp: init_fields[OF assms(1)])
    then show "?msk = Some (spec_empty index G)" by simp
  qed
  from base_loop_closed[OF assms(2) this] show ?thesis
    by (simp add: base_outs_def init_fields[OF assms(1)])
qed

lemma div_count_Some [simp]: "div_count (Some m) (Some c) = Inr (t_div_col m c)"
  by (simp add: div_count_def)

lemma item_nth [simp]: "i < length xs \<Longrightarrow> item xs i = Inr (xs ! i)"
  by (simp add: item_def)

lemma set_item_upd [simp]: "i < length xs \<Longrightarrow> set_item xs i v = Inr (xs[i := v])"
  by (simp add: set_item_def)

lemma fresh_mean_closed:
  assumes "valid_index index G (length xs)"
  shows "fresh_mean xs index G F (Some (spec_count index G)) =
           Inr (spec_aggregate MeanAggregation xs index G F)"
  using assms by (simp add: fresh_mean_def scatter_reduce_closed)

lemma base_outs_Sum:
  assumes "make_aggr_index aggrs SumAggregation = Some j"
  shows "base_outs aggrs xs index G F ! j = Some (spec_aggregate SumAggregation xs index G F)"
    and "j < length aggrs"
proof -
  from aggr_index_Some[OF assms] have j: "j < length aggrs" "aggrs ! j = SumAggregation"
    by simp_all
  then show "j < length aggrs" by simp
  from j show "base_outs aggrs xs index G F ! j = Some (spec_aggregate SumAggregation xs index G F)"
    by (simp add: base_outs_nth plan_entry_base)
qed

lemma mean_stage_closed:
  assumes "init aggrs = Inr self" and "valid_index index G (length xs)"
  shows "mean_stage self (if need_degree self then Some (spec_count index G) else None)
           (base_outs aggrs xs index G F)
         = Inr (put aggrs MeanAggregation xs index G F (base_outs aggrs xs index G F))"
proof (cases "make_aggr_index aggrs MeanAggregation")
  case None
  then show ?thesis by (simp add: mean_stage_def put_def init_fields[OF assms(1)])
next
  case (Some i)
  have ai: "aggr_index self MeanAggregation = Some i"
    by (simp add: Some init_fields[OF assms(1)])
  from aggr_index_Some[OF Some] have i: "i < length aggrs" "aggrs ! i = MeanAggregation"
    by simp_all
  have nd: "need_degree self"
    by (rule need_degree_mem[OF assms(1) Some]) (simp add: DEGREE_BASED_AGGRS_def)
  show ?thesis
  proof (cases "make_aggr_index aggrs SumAggregation")
    case None
    have "base_outs aggrs xs index G F ! i = Some (spec_aggregate SumAggregation xs index G F)"
      using i by (simp add: base_outs_nth plan_entry_Mean None)
    then show ?thesis using i nd
      by (simp add: mean_stage_def ai lookup_at_index(1)[OF assms(1) ai] plan_entry_Mean None
            put_def Some)
  next
    case (Some j)
    note bj = base_outs_Sum[OF Some]
    show ?thesis using i nd bj
      by (simp add: mean_stage_def ai lookup_at_index(1)[OF assms(1) ai] plan_entry_Mean Some
            put_def \<open>make_aggr_index aggrs MeanAggregation = Some i\<close>)
  qed
qed

lemma variance_Some [simp]:
  "variance (Some p) (Some c) (Some m) = Inr (t_sub (t_div_col p c) (t_mul m m))"
  by (simp add: variance_def)

lemma spec_Mean_eq:
  "t_div_col (spec_aggregate SumAggregation xs index G F) (spec_count index G)
     = spec_aggregate MeanAggregation xs index G F"
  by simp

lemma spec_Var_eq:
  "t_sub (t_div_col (spec_pow_sum xs index G F) (spec_count index G))
         (t_mul (spec_aggregate MeanAggregation xs index G F)
                (spec_aggregate MeanAggregation xs index G F))
     = spec_aggregate VarAggregation xs index G F"
  by (simp add: Let_def)

lemma spec_Std_eq:
  "t_sqrt (t_add_scalar (t_relu (spec_aggregate VarAggregation xs index G F)) (1 / 100000))
     = spec_aggregate StdAggregation xs index G F"
  by (simp add: Let_def)

declare spec_aggregate.simps [simp del]

lemma put_Mean_at_other:
  assumes "make_aggr_index aggrs k = Some i" and "k \<noteq> MeanAggregation"
  shows "put aggrs MeanAggregation xs index G F (base_outs aggrs xs index G F) ! i
           = base_outs aggrs xs index G F ! i"
proof -
  from aggr_index_Some[OF assms(1)] have i: "i < length aggrs" "aggrs ! i = k" by simp_all
  have "make_aggr_index aggrs MeanAggregation \<noteq> Some i"
  proof
    assume "make_aggr_index aggrs MeanAggregation = Some i"
    from aggr_index_Some[OF this] i assms(2) show False by simp
  qed
  with i show ?thesis by (simp add: put_nth)
qed

text \<open>The mean as the later stages find it, whichever way the plan points.\<close>

lemma mean_after_mean_stage:
  fixes aggrs xs index G F
  defines "o1 \<equiv> put aggrs MeanAggregation xs index G F (base_outs aggrs xs index G F)"
  shows "make_aggr_index aggrs MeanAggregation = Some j \<Longrightarrow>
           j < length o1 \<and> o1 ! j = Some (spec_aggregate MeanAggregation xs index G F)"
    and "make_aggr_index aggrs MeanAggregation = None \<Longrightarrow>
         make_aggr_index aggrs SumAggregation = Some j \<Longrightarrow>
           j < length o1 \<and> o1 ! j = Some (spec_aggregate SumAggregation xs index G F)"
proof -
  { assume m: "make_aggr_index aggrs MeanAggregation = Some j"
    from aggr_index_Some[OF m] have "j < length aggrs" by simp
    then show "j < length o1 \<and> o1 ! j = Some (spec_aggregate MeanAggregation xs index G F)"
      by (simp add: o1_def put_nth m) }
  { assume "make_aggr_index aggrs MeanAggregation = None"
      and s: "make_aggr_index aggrs SumAggregation = Some j"
    then show "j < length o1 \<and> o1 ! j = Some (spec_aggregate SumAggregation xs index G F)"
      using base_outs_Sum[OF s] by (simp add: o1_def put_def) }
qed

lemma var_stage_closed:
  fixes aggrs xs index G F
  defines "o1 \<equiv> put aggrs MeanAggregation xs index G F (base_outs aggrs xs index G F)"
  assumes "init aggrs = Inr self" and "valid_index index G (length xs)"
  shows "var_stage self xs index G F
           (if need_degree self then Some (spec_count index G) else None) o1
         = Inr (put aggrs VarAggregation xs index G F o1,
                case make_aggr_index aggrs VarAggregation of
                  None \<Rightarrow> None
                | Some i \<Rightarrow> Some (Some (spec_pow_sum xs index G F),
                                 Some (spec_aggregate MeanAggregation xs index G F)))"
proof (cases "make_aggr_index aggrs VarAggregation")
  case None
  then show ?thesis by (simp add: var_stage_def put_def init_fields[OF assms(2)])
next
  case (Some i)
  have ai: "aggr_index self VarAggregation = Some i"
    by (simp add: Some init_fields[OF assms(2)])
  from aggr_index_Some[OF Some] have i: "i < length aggrs" "aggrs ! i = VarAggregation"
    by simp_all
  have nd: "need_degree self"
    by (rule need_degree_mem[OF assms(2) Some]) (simp add: DEGREE_BASED_AGGRS_def)
  have len: "i < length o1" using i by (simp add: o1_def)
  have pw: "o1 ! i = Some (spec_pow_sum xs index G F)"
    unfolding o1_def using put_Mean_at_other[OF Some] i
    by (simp add: base_outs_nth plan_entry_Var)
  note ma = mean_after_mean_stage[of aggrs _ xs index G F, folded o1_def]
  show ?thesis
  proof (cases "make_aggr_index aggrs MeanAggregation")
    case (Some j)
    from ma(1)[OF Some] show ?thesis using len pw nd
      by (simp add: var_stage_def ai lookup_at_index(1)[OF assms(2) ai] plan_entry_Var Some
            put_def \<open>make_aggr_index aggrs VarAggregation = Some i\<close> spec_Var_eq)
  next
    case None
    show ?thesis
    proof (cases "make_aggr_index aggrs SumAggregation")
      case (Some j)
      from ma(2)[OF None Some] show ?thesis using len pw nd
        by (simp add: var_stage_def ai lookup_at_index(1)[OF assms(2) ai] plan_entry_Var
              None Some put_def \<open>make_aggr_index aggrs VarAggregation = Some i\<close>
              spec_Mean_eq spec_Var_eq)
    next
      case none: None
      show ?thesis using len pw nd
        by (simp add: var_stage_def ai lookup_at_index(1)[OF assms(2) ai] plan_entry_Var
              None none put_def \<open>make_aggr_index aggrs VarAggregation = Some i\<close>
              fresh_mean_closed[OF assms(3)] spec_Var_eq)
    qed
  qed
qed

lemma std_stage_closed:
  fixes aggrs xs index G F
  defines "o1 \<equiv> put aggrs MeanAggregation xs index G F (base_outs aggrs xs index G F)"
  defines "o2 \<equiv> put aggrs VarAggregation xs index G F o1"
  assumes "init aggrs = Inr self" and "valid_index index G (length xs)"
  shows "std_stage self xs index G F
           (if need_degree self then Some (spec_count index G) else None)
           (case make_aggr_index aggrs VarAggregation of
              None \<Rightarrow> None
            | Some i \<Rightarrow> Some (Some (spec_pow_sum xs index G F),
                             Some (spec_aggregate MeanAggregation xs index G F)))
           o2
         = Inr (put aggrs StdAggregation xs index G F o2)"
proof (cases "make_aggr_index aggrs StdAggregation")
  case None
  then show ?thesis by (simp add: std_stage_def put_def init_fields[OF assms(3)])
next
  case (Some i)
  note si = Some
  have ai: "aggr_index self StdAggregation = Some i"
    by (simp add: Some init_fields[OF assms(3)])
  from aggr_index_Some[OF Some] have i: "i < length aggrs" "aggrs ! i = StdAggregation"
    by simp_all
  have nd: "need_degree self"
    by (rule need_degree_mem[OF assms(3) Some]) (simp add: DEGREE_BASED_AGGRS_def)
  have len: "i < length o2" using i by (simp add: o2_def o1_def)
  show ?thesis
  proof (cases "make_aggr_index aggrs VarAggregation")
    case (Some j)
    from aggr_index_Some[OF Some] have "j < length o1" by (simp add: o1_def)
    then have "j < length o2" "o2 ! j = Some (spec_aggregate VarAggregation xs index G F)"
      by (simp_all add: o2_def put_nth Some)
    then show ?thesis using len nd
      by (simp add: std_stage_def ai lookup_at_index(1)[OF assms(3) ai] plan_entry_Std Some
            put_def si spec_Std_eq)
  next
    case None
    have o2: "o2 = o1" by (simp add: o2_def put_def None)
    have pw: "o1 ! i = Some (spec_pow_sum xs index G F)"
      unfolding o1_def using put_Mean_at_other[OF si] i
      by (simp add: base_outs_nth plan_entry_Std None)
    have len1: "i < length o1" using len o2 by simp
    note ma = mean_after_mean_stage[of aggrs _ xs index G F, folded o1_def]
    show ?thesis
    proof (cases "make_aggr_index aggrs MeanAggregation")
      case (Some j)
      from ma(1)[OF Some] show ?thesis using len1 pw nd
        by (simp add: std_stage_def ai lookup_at_index(1)[OF assms(3) ai] plan_entry_Std
              None Some put_def si o2 spec_Var_eq spec_Std_eq)
    next
      case nomean: None
      show ?thesis
      proof (cases "make_aggr_index aggrs SumAggregation")
        case (Some j)
        from ma(2)[OF nomean Some] show ?thesis using len1 pw nd
          by (simp add: std_stage_def ai lookup_at_index(1)[OF assms(3) ai] plan_entry_Std
                None nomean Some put_def si o2 spec_Mean_eq spec_Var_eq spec_Std_eq)
      next
        case nosum: None
        show ?thesis using len1 pw nd
          by (simp add: std_stage_def ai lookup_at_index(1)[OF assms(3) ai] plan_entry_Std
                None nomean nosum put_def si o2 fresh_mean_closed[OF assms(4)]
                spec_Var_eq spec_Std_eq)
      qed
    qed
  qed
qed

lemma forward_closed:
  assumes "init aggrs = Inr self" and "valid_index index G (length rows)"
  shows "forward self (Matrix F (map (map Fin) rows)) index G
           = cat (final_outs aggrs (map (map Fin) rows) index G F)"
proof -
  let ?xs = "map (map Fin) rows"
  have v: "valid_index index G (length ?xs)" using assms(2) by simp
  show ?thesis
    by (simp add: forward_def assert_two_dimensional_input_def
          group_statistics_closed[OF v] base_loop_init[OF assms(1) v]
          mean_stage_closed[OF assms(1) v] var_stage_closed[OF assms(1) v]
          std_stage_closed[OF assms(1) v] final_outs_def)
qed

section \<open>Shapes, concatenation and the list of outputs\<close>

lemma length_foldl_map2:
  "length acc = F \<Longrightarrow> \<forall>r \<in> set rows. length r = F \<Longrightarrow> length (foldl (map2 f) acc rows) = F"
  by (induction rows arbitrary: acc) simp_all

lemma group_rows_subset: "set (group_rows index src g) \<subseteq> set src"
  by (auto simp: group_rows_def dest: set_zip_rightD)

lemma shape_grouped_reduce:
  assumes "\<forall>r \<in> set xs. length r = F"
  shows "shape G F (grouped_reduce opr fill xs index G F)"
proof -
  have "\<And>g. length (foldl (map2 opr) (replicate F fill) (group_rows index xs g)) = F"
    using assms group_rows_subset[of index xs] by (intro length_foldl_map2) auto
  then show ?thesis by (simp add: shape_def grouped_reduce_def)
qed

lemma shape_masked_fill:
  "shape G F m \<Longrightarrow> length msk = G \<Longrightarrow> shape G F (masked_fill m msk v)"
  by (auto simp: shape_def masked_fill_def dest: set_zip_leftD)

lemma shape_t_div_col:
  "shape G F m \<Longrightarrow> length c = G \<Longrightarrow> shape G F (t_div_col m c)"
  by (auto simp: shape_def t_div_col_def dest: set_zip_leftD)

lemma shape_t_mul: "shape G F a \<Longrightarrow> shape G F b \<Longrightarrow> shape G F (t_mul a b)"
  by (auto simp: shape_def t_mul_def elim!: in_set_zipE)

lemma shape_t_sub: "shape G F a \<Longrightarrow> shape G F b \<Longrightarrow> shape G F (t_sub a b)"
  by (auto simp: shape_def t_sub_def elim!: in_set_zipE)

lemma shape_t_relu: "shape G F a \<Longrightarrow> shape G F (t_relu a)"
  by (auto simp: shape_def t_relu_def)

lemma shape_t_add_scalar: "shape G F a \<Longrightarrow> shape G F (t_add_scalar a c)"
  by (auto simp: shape_def t_add_scalar_def)

lemma shape_t_sqrt: "shape G F a \<Longrightarrow> shape G F (t_sqrt a)"
  by (auto simp: shape_def t_sqrt_def)

lemma length_spec_count [simp]: "length (spec_count index G) = G"
  by (simp add: spec_count_def)

lemma length_spec_empty [simp]: "length (spec_empty index G) = G"
  by (simp add: spec_empty_def)

lemma rows_t_mul_self:
  "\<forall>r \<in> set xs. length r = F \<Longrightarrow> \<forall>r \<in> set (t_mul xs xs). length r = F"
  by (auto simp: t_mul_def elim!: in_set_zipE)

lemma shape_spec_pow_sum:
  "\<forall>r \<in> set xs. length r = F \<Longrightarrow> shape G F (spec_pow_sum xs index G F)"
  unfolding spec_pow_sum_def by (intro shape_grouped_reduce rows_t_mul_self)

lemma shape_spec_Mean:
  "\<forall>r \<in> set xs. length r = F \<Longrightarrow> shape G F (spec_aggregate MeanAggregation xs index G F)"
  by (simp add: spec_aggregate.simps shape_t_div_col shape_grouped_reduce)

lemma shape_spec_Var:
  "\<forall>r \<in> set xs. length r = F \<Longrightarrow> shape G F (spec_aggregate VarAggregation xs index G F)"
  unfolding spec_Var_eq[symmetric]
  by (intro shape_t_sub shape_t_mul shape_t_div_col shape_spec_pow_sum shape_spec_Mean) simp_all

lemma shape_spec_aggregate:
  assumes "\<forall>r \<in> set xs. length r = F" and "k \<in> FUSABLE_AGGRS"
  shows "shape G F (spec_aggregate k xs index G F)"
proof (cases k)
  case StdAggregation
  then show ?thesis
    by (simp add: spec_Std_eq[symmetric] shape_t_sqrt shape_t_add_scalar shape_t_relu
          shape_spec_Var assms(1))
next
  case OtherAggregation
  with assms(2) show ?thesis by (simp add: FUSABLE_AGGRS_def)
next
  case MeanAggregation
  then show ?thesis by (simp add: shape_spec_Mean assms(1))
next
  case VarAggregation
  then show ?thesis by (simp add: shape_spec_Var assms(1))
qed (simp_all add: spec_aggregate.simps shape_grouped_reduce shape_masked_fill assms(1))

lemma shape_base_block:
  assumes "\<forall>r \<in> set xs. length r = F"
  shows "shape G F (base_block r xs index G F)"
  using assms
  by (cases r) (simp_all add: shape_spec_aggregate shape_spec_pow_sum FUSABLE_AGGRS_def)

lemma concat_block:
  "\<forall>l \<in> set ls. length l = F \<Longrightarrow> i < length ls \<Longrightarrow> take F (drop (i * F) (concat ls)) = ls ! i"
proof (induction ls arbitrary: i)
  case Nil
  then show ?case by simp
next
  case (Cons l ls)
  show ?case
  proof (cases i)
    case 0
    with Cons.prems show ?thesis by simp
  next
    case (Suc n)
    with Cons show ?thesis by simp
  qed
qed

lemma length_concat_const:
  "\<forall>l \<in> set ls. length l = F \<Longrightarrow> length (concat ls) = F * length ls"
  by (induction ls) simp_all

lemma hcat_shape:
  assumes "bs \<noteq> []" and "\<forall>b \<in> set bs. shape G F b"
  shows "length (hcat bs) = G"
    and "\<forall>row \<in> set (hcat bs). length row = F * length bs"
    and "\<forall>i < length bs. block F i (hcat bs) = bs ! i"
proof -
  from assms have hd: "length (hd bs) = G" by (cases bs) (auto simp: shape_def)
  show "length (hcat bs) = G" by (simp add: hcat_def hd)
  have rows: "\<And>g. g < G \<Longrightarrow> \<forall>l \<in> set (map (\<lambda>b. b ! g) bs). length l = F"
    using assms(2) by (auto simp: shape_def)
  show "\<forall>row \<in> set (hcat bs). length row = F * length bs"
    using length_concat_const[OF rows] by (auto simp: hcat_def hd)
  show "\<forall>i < length bs. block F i (hcat bs) = bs ! i"
  proof (intro allI impI)
    fix i assume i: "i < length bs"
    then have "bs ! i \<in> set bs" by simp
    with assms(2) have li: "length (bs ! i) = G" by (auto simp: shape_def)
    show "block F i (hcat bs) = bs ! i"
    proof (rule nth_equalityI)
      show "length (block F i (hcat bs)) = length (bs ! i)"
        by (simp add: block_def hcat_def hd li)
    next
      fix g assume "g < length (block F i (hcat bs))"
      then have g: "g < G" by (simp add: block_def hcat_def hd)
      from concat_block[OF rows[OF g], of i] i g
      show "block F i (hcat bs) ! g = bs ! i ! g"
        by (simp add: block_def hcat_def hd)
    qed
  qed
qed

lemma cat_Some:
  assumes "bs \<noteq> []" and "\<forall>b \<in> set bs. shape G F b"
  shows "cat (map Some bs) = Inr (hcat bs)"
proof -
  from assms have "length (hd bs) = G" by (cases bs) (auto simp: shape_def)
  moreover have "None \<notin> set (map Some bs)" by auto
  moreover have "map the (map Some bs) = bs" by (simp add: comp_def)
  moreover have "hd (map Some bs) = Some (hd bs)" using assms(1) by (simp add: hd_map)
  ultimately show ?thesis using assms
    by (auto simp: cat_def shape_def)
qed

lemma final_outs_nth:
  assumes "i < length aggrs"
  shows "final_outs aggrs xs index G F ! i =
     (if make_aggr_index aggrs StdAggregation = Some i
        then Some (spec_aggregate StdAggregation xs index G F)
      else if make_aggr_index aggrs VarAggregation = Some i
        then Some (spec_aggregate VarAggregation xs index G F)
      else if make_aggr_index aggrs MeanAggregation = Some i
        then Some (spec_aggregate MeanAggregation xs index G F)
      else map_option (\<lambda>r. base_block r xs index G F)
             (fst (plan_entry (make_aggr_index aggrs) (aggrs ! i))))"
  using assms by (simp add: final_outs_def put_nth base_outs_nth)

lemma length_final_outs [simp]: "length (final_outs aggrs xs index G F) = length aggrs"
  by (simp add: final_outs_def)

lemma final_outs_distinct:
  assumes "distinct aggrs" and "set aggrs \<subseteq> FUSABLE_AGGRS"
  shows "final_outs aggrs xs index G F = map (\<lambda>k. Some (spec_aggregate k xs index G F)) aggrs"
proof (rule nth_equalityI)
  show "length (final_outs aggrs xs index G F)
          = length (map (\<lambda>k. Some (spec_aggregate k xs index G F)) aggrs)" by simp
next
  fix i assume "i < length (final_outs aggrs xs index G F)"
  then have i: "i < length aggrs" by simp
  note d = aggr_index_distinct[OF assms(1)]
  have idx: "make_aggr_index aggrs (aggrs ! i) = Some i" by (rule d[OF i])
  have other: "\<And>c. c \<noteq> aggrs ! i \<Longrightarrow> make_aggr_index aggrs c \<noteq> Some i"
  proof
    fix c assume "c \<noteq> aggrs ! i" "make_aggr_index aggrs c = Some i"
    with aggr_index_Some[of aggrs c i] show False by simp
  qed
  from i assms(2) have fus: "aggrs ! i \<in> FUSABLE_AGGRS" by auto
  show "final_outs aggrs xs index G F ! i
          = map (\<lambda>k. Some (spec_aggregate k xs index G F)) aggrs ! i"
  proof (cases "aggrs ! i")
    case OtherAggregation
    with fus show ?thesis by (simp add: FUSABLE_AGGRS_def)
  qed (use i idx other in \<open>simp_all add: final_outs_nth plan_entry_base\<close>)
qed

lemma valid_input_index:
  "valid_input F rows index G \<Longrightarrow> valid_index index G (length rows)"
  by (simp add: valid_input_def valid_index_def)

lemma valid_input_rows:
  "valid_input F rows index G \<Longrightarrow> \<forall>r \<in> set (map (map Fin) rows). length r = F"
  by (simp add: valid_input_def)

lemma forward_distinct:
  assumes "init aggrs = Inr self" and "distinct aggrs" and "valid_input F rows index G"
  shows "forward self (Matrix F (map (map Fin) rows)) index G
           = Inr (hcat (map (\<lambda>k. spec_aggregate k (map (map Fin) rows) index G F) aggrs))"
proof -
  let ?bs = "map (\<lambda>k. spec_aggregate k (map (map Fin) rows) index G F) aggrs"
  note f = init_fields[OF assms(1)]
  have ne: "?bs \<noteq> []" using f(1) by simp
  have sh: "\<forall>b \<in> set ?bs. shape G F b"
    using shape_spec_aggregate[OF valid_input_rows[OF assms(3)]] f(2) by auto
  have "forward self (Matrix F (map (map Fin) rows)) index G = cat (map Some ?bs)"
    by (simp add: forward_closed[OF assms(1) valid_input_index[OF assms(3)]]
          final_outs_distinct[OF assms(2) f(2)] comp_def)
  with cat_Some[OF ne sh] show ?thesis by simp
qed

section \<open>Rows of empty groups and finite entries\<close>

lemma forward_blocks:
  assumes "init aggrs = Inr self" and "valid_input F rows index G"
    and "forward self (Matrix F (map (map Fin) rows)) index G = Inr out"
  shows "length out = G"
    and "\<forall>row \<in> set out. length row = F * length aggrs"
    and "\<forall>i < length aggrs.
           final_outs aggrs (map (map Fin) rows) index G F ! i = Some (block F i out)"
proof -
  let ?xs = "map (map Fin) rows"
  let ?fo = "final_outs aggrs ?xs index G F"
  note f = init_fields[OF assms(1)]
  note wf = valid_input_rows[OF assms(2)]
  have c: "cat ?fo = Inr out"
    using assms(3) forward_closed[OF assms(1) valid_input_index[OF assms(2)]] by simp
  then have nn: "None \<notin> set ?fo" and out: "out = hcat (map the ?fo)"
    by (auto simp: cat_def split: if_splits)
  have sh: "\<forall>b \<in> set (map the ?fo). shape G F b"
  proof
    fix b assume "b \<in> set (map the ?fo)"
    then obtain i where i: "i < length aggrs" and b: "b = the (?fo ! i)"
      by (auto simp: in_set_conv_nth)
    have "?fo ! i \<in> set ?fo" using i by simp
    with nn obtain m where m: "?fo ! i = Some m" by (cases "?fo ! i") auto
    from m i have "shape G F m"
      using shape_spec_aggregate[OF wf, of _ G index] shape_base_block[OF wf, of G _ index]
      by (auto simp: final_outs_nth FUSABLE_AGGRS_def split: if_splits)
    with b m show "shape G F b" by simp
  qed
  have "length ?fo \<noteq> 0" using f(1) by simp
  then have ne: "map the ?fo \<noteq> []" by (simp del: length_final_outs)
  note h = hcat_shape[OF ne sh]
  show "length out = G" using h(1) out by simp
  show "\<forall>row \<in> set out. length row = F * length aggrs" using h(2) out by simp
  show "\<forall>i < length aggrs. ?fo ! i = Some (block F i out)"
  proof (intro allI impI)
    fix i assume i: "i < length aggrs"
    have "?fo ! i \<in> set ?fo" using i by simp
    with nn obtain m where m: "?fo ! i = Some m" by (cases "?fo ! i") auto
    from h(3) i have "block F i out = the (?fo ! i)" by (simp add: out)
    with m show "?fo ! i = Some (block F i out)" by simp
  qed
qed

lemma group_rows_empty: "int g \<notin> set index \<Longrightarrow> group_rows index src g = []"
  by (auto simp: group_rows_def filter_empty_conv dest: set_zip_leftD)

lemma grouped_reduce_empty_row:
  "g < G \<Longrightarrow> int g \<notin> set index \<Longrightarrow> grouped_reduce opr fill xs index G F ! g = replicate F fill"
  by (simp add: grouped_reduce_def group_rows_empty)

lemma spec_count_empty:
  "g < G \<Longrightarrow> int g \<notin> set index \<Longrightarrow> spec_count index G ! g = Fin 1"
  using group_count_zero[of index g] by (simp add: spec_count_def)

lemma spec_empty_nth: "g < G \<Longrightarrow> spec_empty index G ! g = (int g \<notin> set index)"
  by (simp add: spec_empty_def group_count_zero)

lemma masked_fill_nth:
  "g < length m \<Longrightarrow> g < length msk \<Longrightarrow>
   masked_fill m msk v ! g = (if msk ! g then map (\<lambda>_. v) (m ! g) else m ! g)"
  by (simp add: masked_fill_def)

lemma t_div_col_nth:
  "g < length m \<Longrightarrow> g < length c \<Longrightarrow> t_div_col m c ! g = map (\<lambda>v. fdiv v (c ! g)) (m ! g)"
  by (simp add: t_div_col_def)

lemma t_sub_nth:
  "g < length a \<Longrightarrow> g < length b \<Longrightarrow> t_sub a b ! g = map2 fsub (a ! g) (b ! g)"
  by (simp add: t_sub_def)

lemma t_mul_nth:
  "g < length a \<Longrightarrow> g < length b \<Longrightarrow> t_mul a b ! g = map2 fmul (a ! g) (b ! g)"
  by (simp add: t_mul_def)

lemma std_row_nth:
  "g < length a \<Longrightarrow>
   t_sqrt (t_add_scalar (t_relu a) c) ! g = map (\<lambda>v. fsqrt (fadd (frelu v) (Fin c))) (a ! g)"
  by (simp add: t_sqrt_def t_add_scalar_def t_relu_def)

lemma map2_replicate: "map2 f (replicate n a) (replicate n b) = replicate n (f a b)"
  by (simp add: zip_replicate)

text \<open>The row of a group without elements, kind by kind.\<close>

lemma empty_row_Sum:
  "g < G \<Longrightarrow> int g \<notin> set index \<Longrightarrow>
   spec_aggregate SumAggregation xs index G F ! g = replicate F (Fin 0)"
  by (simp add: spec_aggregate.simps grouped_reduce_empty_row)

lemma empty_row_pow_sum:
  "g < G \<Longrightarrow> int g \<notin> set index \<Longrightarrow> spec_pow_sum xs index G F ! g = replicate F (Fin 0)"
  by (simp add: spec_pow_sum_def grouped_reduce_empty_row)

lemma length_grouped_reduce [simp]: "length (grouped_reduce opr fill xs index G F) = G"
  by (simp add: grouped_reduce_def)

lemma length_spec_pow_sum [simp]: "length (spec_pow_sum xs index G F) = G"
  by (simp add: spec_pow_sum_def)

lemma empty_row_masked:
  "g < G \<Longrightarrow> int g \<notin> set index \<Longrightarrow>
   masked_fill (grouped_reduce opr fill xs index G F) (spec_empty index G) (Fin 0) ! g
     = replicate F (Fin 0)"
  by (simp add: masked_fill_nth spec_empty_nth grouped_reduce_empty_row)

lemma length_spec_Mean [simp]: "length (spec_aggregate MeanAggregation xs index G F) = G"
  by (simp add: spec_aggregate.simps t_div_col_def)

lemma empty_row_Mean:
  "g < G \<Longrightarrow> int g \<notin> set index \<Longrightarrow>
   spec_aggregate MeanAggregation xs index G F ! g = replicate F (Fin 0)"
  by (simp add: spec_aggregate.simps t_div_col_nth grouped_reduce_empty_row spec_count_empty)

lemma length_spec_Var [simp]: "length (spec_aggregate VarAggregation xs index G F) = G"
  by (simp add: spec_Var_eq[symmetric] t_sub_def t_mul_def t_div_col_def)

lemma empty_row_Var:
  assumes "g < G" and "int g \<notin> set index"
  shows "spec_aggregate VarAggregation xs index G F ! g = replicate F (Fin 0)"
proof -
  have "t_mul (spec_aggregate MeanAggregation xs index G F)
              (spec_aggregate MeanAggregation xs index G F) ! g = replicate F (Fin 0)"
    using assms by (simp add: t_mul_nth empty_row_Mean map2_replicate)
  moreover have "t_div_col (spec_pow_sum xs index G F) (spec_count index G) ! g
      = replicate F (Fin 0)"
    using assms by (simp add: t_div_col_nth empty_row_pow_sum spec_count_empty)
  ultimately show ?thesis using assms
    by (simp add: spec_Var_eq[symmetric] t_sub_nth t_mul_def t_div_col_def map2_replicate
          fsub_def)
qed

lemma empty_row_Std:
  assumes "g < G" and "int g \<notin> set index"
  shows "spec_aggregate StdAggregation xs index G F ! g = replicate F (Fin (sqrt (1 / 100000)))"
  using assms by (simp add: spec_Std_eq[symmetric] std_row_nth empty_row_Var)

lemma empty_row_base_block:
  "g < G \<Longrightarrow> int g \<notin> set index \<Longrightarrow> base_block r xs index G F ! g = replicate F (Fin 0)"
  by (cases r)
     (simp_all add: empty_row_pow_sum empty_row_masked grouped_reduce_empty_row
        spec_aggregate.simps)











section \<open>The engine on duplicate-free lists\<close>

lemma hcat_single: "hcat [b] = b"
  by (simp add: hcat_def map_nth)


lemma run_distinct:
  assumes "aggrs \<noteq> []" and "set aggrs \<subseteq> FUSABLE_AGGRS" and "distinct aggrs"
    and "valid_input F rows index G"
  shows "run aggrs (Matrix F (map (map Fin) rows)) index G
           = Inr (hcat (map (\<lambda>k. spec_aggregate k (map (map Fin) rows) index G F) aggrs))"
proof -
  from init_ok[OF assms(1,2)] obtain self where s: "init aggrs = Inr self" by blast
  from forward_distinct[OF s assms(3,4)] s show ?thesis by (simp add: run_def)
qed

lemma run_single:
  assumes "k \<in> FUSABLE_AGGRS" and "valid_input F rows index G"
  shows "run [k] (Matrix F (map (map Fin) rows)) index G
           = Inr (spec_aggregate k (map (map Fin) rows) index G F)"
  using run_distinct[of "[k]" F rows index G] assms by (simp add: hcat_single)

lemma blocks_of_hcat:
  assumes "set aggrs \<subseteq> FUSABLE_AGGRS" and "aggrs \<noteq> []" and "valid_input F rows index G"
  defines "bs \<equiv> map (\<lambda>k. spec_aggregate k (map (map Fin) rows) index G F) aggrs"
  shows "length (hcat bs) = G"
    and "\<forall>row \<in> set (hcat bs). length row = F * length aggrs"
    and "\<forall>i < length aggrs.
           block F i (hcat bs) = spec_aggregate (aggrs ! i) (map (map Fin) rows) index G F"
proof -
  have ne: "bs \<noteq> []" using assms(2) by (simp add: bs_def)
  have sh: "\<forall>b \<in> set bs. shape G F b"
    using shape_spec_aggregate[OF valid_input_rows[OF assms(3)]] assms(1)
    by (auto simp: bs_def)
  note h = hcat_shape[OF ne sh]
  show "length (hcat bs) = G" by (rule h(1))
  show "\<forall>row \<in> set (hcat bs). length row = F * length aggrs"
    using h(2) by (simp add: bs_def)
  show "\<forall>i < length aggrs.
           block F i (hcat bs) = spec_aggregate (aggrs ! i) (map (map Fin) rows) index G F"
    using h(3) by (simp add: bs_def)
qed

lemma spec_count_props:
  assumes "g < G"
  shows "\<exists>c. spec_count index G ! g = Fin c \<and> 1 \<le> c \<and>
             (\<forall>a. fdiv (Fin a) (spec_count index G ! g) = Fin (a / c))"
proof -
  let ?c = "real (max 1 (group_count index g))"
  have "spec_count index G ! g = Fin ?c" using assms by (simp add: spec_count_def)
  moreover have "1 \<le> ?c" by simp
  moreover have "?c \<noteq> 0" by simp
  ultimately show ?thesis by (metis fdiv.simps(1))
qed

section \<open>Errors at invocation\<close>







text \<open>The definitions to unfold when the model is run on a concrete input.\<close>

lemmas eval_defs =
  run_def init_def FUSABLE_AGGRS_def DEGREE_BASED_AGGRS_def MASK_REQUIRED_AGGRS_def
  make_aggr_index_def plan_entry_def forward_def assert_two_dimensional_input_def
  group_statistics_def scatter_add_def reduce_one_def fill_value_of_def scatter_reduce_def
  new_full_def mean_stage_def var_stage_def std_stage_def item_def set_item_def
  fresh_mean_def div_count_def variance_def t_mul_def t_sub_def t_relu_def
  t_add_scalar_def t_sqrt_def t_div_col_def cat_def hcat_def fsub_def masked_fill_def Let_def
  upt_rec numeral_2_eq_2 numeral_3_eq_3 block_def

section \<open>The claims\<close>

text \<open>
  C5. The reuse targets of the plan follow the priority order: Variance records Mean's
  slot if Mean is requested, else Sum's slot if Sum is requested, else nothing, and always
  runs its sum-of-squares base reduce; StdDev records Variance's slot if Variance is
  requested and then has no base reduce of its own, else Mean's slot, else Sum's slot,
  else nothing, with its own sum-of-squares base reduce in these three cases.
\<close>

theorem reuse_priority_order:
  assumes "init aggrs = Inr self" and "i < length aggrs"
  shows "(aggrs ! i = VarAggregation \<longrightarrow>
            reduce_ops self ! i = Some R_pow_sum \<and>
            (MeanAggregation \<in> set aggrs \<longrightarrow>
               (\<exists>j < length aggrs. aggrs ! j = MeanAggregation \<and>
                    lookup_ops self ! i = Some (MeanAggregation, j))) \<and>
            (MeanAggregation \<notin> set aggrs \<and> SumAggregation \<in> set aggrs \<longrightarrow>
               (\<exists>j < length aggrs. aggrs ! j = SumAggregation \<and>
                    lookup_ops self ! i = Some (SumAggregation, j))) \<and>
            (MeanAggregation \<notin> set aggrs \<and> SumAggregation \<notin> set aggrs \<longrightarrow>
               lookup_ops self ! i = None)) \<and>
         (aggrs ! i = StdAggregation \<longrightarrow>
            (VarAggregation \<in> set aggrs \<longrightarrow>
               reduce_ops self ! i = None \<and>
               (\<exists>j < length aggrs. aggrs ! j = VarAggregation \<and>
                    lookup_ops self ! i = Some (VarAggregation, j))) \<and>
            (VarAggregation \<notin> set aggrs \<longrightarrow> reduce_ops self ! i = Some R_pow_sum) \<and>
            (VarAggregation \<notin> set aggrs \<and> MeanAggregation \<in> set aggrs \<longrightarrow>
               (\<exists>j < length aggrs. aggrs ! j = MeanAggregation \<and>
                    lookup_ops self ! i = Some (MeanAggregation, j))) \<and>
            (VarAggregation \<notin> set aggrs \<and> MeanAggregation \<notin> set aggrs \<and>
             SumAggregation \<in> set aggrs \<longrightarrow>
               (\<exists>j < length aggrs. aggrs ! j = SumAggregation \<and>
                    lookup_ops self ! i = Some (SumAggregation, j))) \<and>
            (VarAggregation \<notin> set aggrs \<and> MeanAggregation \<notin> set aggrs \<and>
             SumAggregation \<notin> set aggrs \<longrightarrow>
               lookup_ops self ! i = None))"
proof -
  let ?idx = "make_aggr_index aggrs"
  have r: "reduce_ops self ! i = fst (plan_entry ?idx (aggrs ! i))"
    and l: "lookup_ops self ! i = snd (plan_entry ?idx (aggrs ! i))"
    using assms by (simp_all add: init_fields[OF assms(1)])
  have none: "\<And>c. c \<notin> set aggrs \<Longrightarrow> ?idx c = None"
    by (simp add: aggr_index_None)
  have some: "\<And>c. c \<in> set aggrs \<Longrightarrow> \<exists>j. ?idx c = Some j \<and> j < length aggrs \<and> aggrs ! j = c"
    by (rule aggr_index_mem)
  show ?thesis
  proof (intro conjI impI)
    assume v: "aggrs ! i = VarAggregation"
    show "reduce_ops self ! i = Some R_pow_sum" by (simp add: r v plan_entry_Var)
    { assume "MeanAggregation \<in> set aggrs"
      from some[OF this] show "\<exists>j < length aggrs. aggrs ! j = MeanAggregation \<and>
          lookup_ops self ! i = Some (MeanAggregation, j)"
        by (auto simp: l v plan_entry_Var) }
    { assume "MeanAggregation \<notin> set aggrs \<and> SumAggregation \<in> set aggrs"
      then show "\<exists>j < length aggrs. aggrs ! j = SumAggregation \<and>
          lookup_ops self ! i = Some (SumAggregation, j)"
        using some[of SumAggregation] none[of MeanAggregation]
        by (auto simp: l v plan_entry_Var) }
    { assume "MeanAggregation \<notin> set aggrs \<and> SumAggregation \<notin> set aggrs"
      then show "lookup_ops self ! i = None"
        by (simp add: l v plan_entry_Var none) }
  next
    assume s: "aggrs ! i = StdAggregation"
    { assume "VarAggregation \<in> set aggrs"
      from some[OF this] show "reduce_ops self ! i = None"
        by (auto simp: r s plan_entry_Std) }
    { assume "VarAggregation \<in> set aggrs"
      from some[OF this] show "\<exists>j < length aggrs. aggrs ! j = VarAggregation \<and>
          lookup_ops self ! i = Some (VarAggregation, j)"
        by (auto simp: l s plan_entry_Std) }
    { assume "VarAggregation \<notin> set aggrs"
      then show "reduce_ops self ! i = Some R_pow_sum"
        by (simp add: r s plan_entry_Std none) }
    { assume "VarAggregation \<notin> set aggrs \<and> MeanAggregation \<in> set aggrs"
      then show "\<exists>j < length aggrs. aggrs ! j = MeanAggregation \<and>
          lookup_ops self ! i = Some (MeanAggregation, j)"
        using some[of MeanAggregation] none[of VarAggregation]
        by (auto simp: l s plan_entry_Std) }
    { assume "VarAggregation \<notin> set aggrs \<and> MeanAggregation \<notin> set aggrs \<and>
         SumAggregation \<in> set aggrs"
      then show "\<exists>j < length aggrs. aggrs ! j = SumAggregation \<and>
          lookup_ops self ! i = Some (SumAggregation, j)"
        using some[of SumAggregation] none[of VarAggregation] none[of MeanAggregation]
        by (auto simp: l s plan_entry_Std) }
    { assume "VarAggregation \<notin> set aggrs \<and> MeanAggregation \<notin> set aggrs \<and>
         SumAggregation \<notin> set aggrs"
      then show "lookup_ops self ! i = None"
        by (simp add: l s plan_entry_Std none) }
  qed
qed

theorem reuse_priority_order_witness:
  "\<exists>self. init [SumAggregation, MeanAggregation, VarAggregation, StdAggregation] = Inr self \<and>
      reduce_ops self ! 2 = Some R_pow_sum \<and>
      (\<exists>j. lookup_ops self ! 2 = Some (MeanAggregation, j)) \<and>
      reduce_ops self ! 3 = None \<and>
      (\<exists>j. lookup_ops self ! 3 = Some (VarAggregation, j))"
proof -
  let ?aggrs = "[SumAggregation, MeanAggregation, VarAggregation, StdAggregation]"
  obtain self where s: "init ?aggrs = Inr self"
    using init_ok[of ?aggrs] by (auto simp: FUSABLE_AGGRS_def)
  have "(2::nat) < length ?aggrs" "(3::nat) < length ?aggrs" by simp_all
  from reuse_priority_order[OF s this(1)] reuse_priority_order[OF s this(2)]
  have "reduce_ops self ! 2 = Some R_pow_sum \<and>
      (\<exists>j. lookup_ops self ! 2 = Some (MeanAggregation, j)) \<and>
      reduce_ops self ! 3 = None \<and>
      (\<exists>j. lookup_ops self ! 3 = Some (VarAggregation, j))"
    by auto
  with s show ?thesis by blast
qed

text \<open>
  C9. For every plan built by the constructor from a non-empty list of fusable kinds the
  reuse target recorded for Variance is Sum or Mean and the one recorded for StdDev is
  Variance, Sum or Mean (and the one recorded for Mean is Sum), and \<open>forward\<close> never
  raises \<open>NotImplementedError\<close>, nor fails the \<open>assert\<close> of the mean stage, whatever
  its input.
\<close>

theorem reuse_chain_branches_unreachable:
  assumes "aggrs \<noteq> []" and "set aggrs \<subseteq> FUSABLE_AGGRS"
  shows "\<exists>self. init aggrs = Inr self \<and>
           (\<forall>i < length aggrs. \<forall>t j. lookup_ops self ! i = Some (t, j) \<longrightarrow>
              (aggrs ! i = MeanAggregation \<longrightarrow> t = SumAggregation) \<and>
              (aggrs ! i = VarAggregation \<longrightarrow> t = SumAggregation \<or> t = MeanAggregation) \<and>
              (aggrs ! i = StdAggregation \<longrightarrow>
                 t = VarAggregation \<or> t = SumAggregation \<or> t = MeanAggregation)) \<and>
           (\<forall>x index dim_size.
              forward self x index dim_size \<noteq> Inl NotImplementedError \<and>
              forward self x index dim_size \<noteq> Inl AssertionError)"
proof -
  from init_ok[OF assms] obtain self where s: "init aggrs = Inr self" by blast
  let ?idx = "make_aggr_index aggrs"
  have "\<forall>i < length aggrs. \<forall>t j. lookup_ops self ! i = Some (t, j) \<longrightarrow>
              (aggrs ! i = MeanAggregation \<longrightarrow> t = SumAggregation) \<and>
              (aggrs ! i = VarAggregation \<longrightarrow> t = SumAggregation \<or> t = MeanAggregation) \<and>
              (aggrs ! i = StdAggregation \<longrightarrow>
                 t = VarAggregation \<or> t = SumAggregation \<or> t = MeanAggregation)"
    by (auto simp: init_fields[OF s] plan_entry_Mean plan_entry_Var plan_entry_Std
          split: option.splits)
  moreover have "\<forall>x index dim_size.
              forward self x index dim_size \<noteq> Inl NotImplementedError \<and>
              forward self x index dim_size \<noteq> Inl AssertionError"
    using forward_not_fatal[OF s] by blast
  ultimately show ?thesis using s by blast
qed

theorem reuse_chain_branches_unreachable_witness:
  "\<exists>self. init [SumAggregation, VarAggregation, StdAggregation] = Inr self \<and>
     forward self (Matrix 1 (map (map Fin) [[1], [2]])) [0, 0] 2 \<noteq> Inl NotImplementedError \<and>
     (\<forall>t j. lookup_ops self ! 2 = Some (t, j) \<longrightarrow>
        t = VarAggregation \<or> t = SumAggregation \<or> t = MeanAggregation)"
proof -
  let ?aggrs = "[SumAggregation, VarAggregation, StdAggregation]"
  have "?aggrs \<noteq> []" "set ?aggrs \<subseteq> FUSABLE_AGGRS" by (simp_all add: FUSABLE_AGGRS_def)
  from reuse_chain_branches_unreachable[OF this] obtain self where
    s: "init ?aggrs = Inr self"
    and l: "\<forall>i < length ?aggrs. \<forall>t j. lookup_ops self ! i = Some (t, j) \<longrightarrow>
              (?aggrs ! i = MeanAggregation \<longrightarrow> t = SumAggregation) \<and>
              (?aggrs ! i = VarAggregation \<longrightarrow> t = SumAggregation \<or> t = MeanAggregation) \<and>
              (?aggrs ! i = StdAggregation \<longrightarrow>
                 t = VarAggregation \<or> t = SumAggregation \<or> t = MeanAggregation)"
    and f: "\<forall>x index dim_size.
              forward self x index dim_size \<noteq> Inl NotImplementedError \<and>
              forward self x index dim_size \<noteq> Inl AssertionError"
    by blast
  have "(2::nat) < length ?aggrs" "?aggrs ! 2 = StdAggregation" by simp_all
  with l have "\<forall>t j. lookup_ops self ! 2 = Some (t, j) \<longrightarrow>
        t = VarAggregation \<or> t = SumAggregation \<or> t = MeanAggregation"
    by blast
  with s f show ?thesis by blast
qed

text \<open>
  C1, as amended. For every valid input, in the output row of a group with zero assigned
  elements the block of every requested kind is exactly zero, except the block that the
  engine records for StdDev: there every entry is \<open>sqrt(1e-5)\<close>.
\<close>

theorem empty_group_row:
  assumes "init aggrs = Inr self" and "valid_input F rows index G"
    and "forward self (Matrix F (map (map Fin) rows)) index G = Inr out"
    and "g < G" and "int g \<notin> set index" and "i < length aggrs"
  shows "block F i out ! g =
           replicate F (if aggr_index self StdAggregation = Some i
                        then Fin (sqrt (1 / 100000)) else Fin 0)"
proof -
  let ?xs = "map (map Fin) rows"
  from forward_blocks(3)[OF assms(1,2,3)] assms(6)
  have b: "final_outs aggrs ?xs index G F ! i = Some (block F i out)" by simp
  have ai: "aggr_index self = make_aggr_index aggrs" by (rule init_fields(4)[OF assms(1)])
  note e = assms(4,5)
  show ?thesis
  proof (cases "make_aggr_index aggrs StdAggregation = Some i")
    case True
    with b assms(6) have "block F i out = spec_aggregate StdAggregation ?xs index G F"
      by (simp add: final_outs_nth)
    with True show ?thesis by (simp add: ai empty_row_Std[OF e])
  next
    case False
    consider (V) "make_aggr_index aggrs VarAggregation = Some i"
      | (M) "make_aggr_index aggrs VarAggregation \<noteq> Some i"
            "make_aggr_index aggrs MeanAggregation = Some i"
      | (B) "make_aggr_index aggrs VarAggregation \<noteq> Some i"
            "make_aggr_index aggrs MeanAggregation \<noteq> Some i"
      by blast
    then have "block F i out ! g = replicate F (Fin 0)"
    proof cases
      case V
      with b False assms(6) have "block F i out = spec_aggregate VarAggregation ?xs index G F"
        by (simp add: final_outs_nth)
      then show ?thesis by (simp add: empty_row_Var[OF e])
    next
      case M
      with b False assms(6) have "block F i out = spec_aggregate MeanAggregation ?xs index G F"
        by (simp add: final_outs_nth)
      then show ?thesis by (simp add: empty_row_Mean[OF e])
    next
      case B
      with b False assms(6) obtain r where "base_block r ?xs index G F = block F i out"
        by (auto simp: final_outs_nth)
      then show ?thesis using empty_row_base_block[OF e, of r ?xs F] by simp
    qed
    with False show ?thesis by (simp add: ai)
  qed
qed

theorem empty_group_row_witness:
  "\<exists>self out. init [MinAggregation, StdAggregation] = Inr self \<and>
      forward self (Matrix 1 (map (map Fin) [[1]])) [0] 2 = Inr out \<and>
      block 1 0 out ! 1 = [Fin 0] \<and> block 1 1 out ! 1 = [Fin (sqrt (1 / 100000))]"
proof -
  let ?aggrs = "[MinAggregation, StdAggregation]"
  obtain self where s: "init ?aggrs = Inr self"
    using init_ok[of ?aggrs] by (auto simp: FUSABLE_AGGRS_def)
  have v: "valid_input 1 [[1]] [0] 2" by (simp add: valid_input_def)
  have d: "distinct ?aggrs" by simp
  from forward_distinct[OF s d v] obtain out where
    o: "forward self (Matrix 1 (map (map Fin) [[1]])) [0] 2 = Inr out" by blast
  have ai: "aggr_index self StdAggregation = Some 1"
    by (simp add: init_fields(4)[OF s] make_aggr_index_def)
  have g: "(1::nat) < 2" "int 1 \<notin> set [0]" by simp_all
  have "block 1 0 out ! 1 = [Fin 0]"
    using empty_group_row[OF s v o g, of 0] ai by simp
  moreover have "block 1 1 out ! 1 = [Fin (sqrt (1 / 100000))]"
    using empty_group_row[OF s v o g, of 1] ai by simp
  ultimately show ?thesis using s o by blast
qed

text \<open>
  The claim as stated fails for StdDev: with one element in group 0 and none in group 1,
  the row of group 1 is \<open>sqrt(1e-5)\<close>, not zero.
\<close>

theorem empty_group_row_counterexample:
  "valid_input 1 [[1]] [0] 2 \<and>
   run [StdAggregation] (Matrix 1 (map (map Fin) [[1]])) [0] 2
     = Inr [[Fin (sqrt (1 / 100000))], [Fin (sqrt (1 / 100000))]] \<and>
   [Fin (sqrt (1 / 100000))] \<noteq> [Fin 0]"
  by (simp add: valid_input_def eval_defs)






text \<open>
  C2. For any valid input and any non-empty duplicate-free list of fusable kinds, the block
  of each requested kind in the fused output is equal to the result of the engine run with
  that kind alone, and to the aggregate of that kind as the specification defines it.
  Entries are exact, so equality stands for agreement within every tolerance.
\<close>

theorem fused_equals_unfused:
  assumes "aggrs \<noteq> []" and "set aggrs \<subseteq> FUSABLE_AGGRS" and "distinct aggrs"
    and "valid_input F rows index G"
  shows "\<exists>out. run aggrs (Matrix F (map (map Fin) rows)) index G = Inr out \<and>
           (\<forall>i < length aggrs.
              run [aggrs ! i] (Matrix F (map (map Fin) rows)) index G = Inr (block F i out) \<and>
              block F i out = spec_aggregate (aggrs ! i) (map (map Fin) rows) index G F)"
proof -
  let ?out = "hcat (map (\<lambda>k. spec_aggregate k (map (map Fin) rows) index G F) aggrs)"
  have "\<forall>i < length aggrs.
          run [aggrs ! i] (Matrix F (map (map Fin) rows)) index G = Inr (block F i ?out) \<and>
          block F i ?out = spec_aggregate (aggrs ! i) (map (map Fin) rows) index G F"
  proof (intro allI impI)
    fix i assume i: "i < length aggrs"
    then have "aggrs ! i \<in> FUSABLE_AGGRS" using assms(2) by auto
    from run_single[OF this assms(4)] blocks_of_hcat(3)[OF assms(2,1,4)] i
    show "run [aggrs ! i] (Matrix F (map (map Fin) rows)) index G = Inr (block F i ?out) \<and>
          block F i ?out = spec_aggregate (aggrs ! i) (map (map Fin) rows) index G F"
      by simp
  qed
  with run_distinct[OF assms] show ?thesis by blast
qed

theorem fused_equals_unfused_witness:
  "\<exists>out. run [SumAggregation, VarAggregation, StdAggregation]
            (Matrix 1 (map (map Fin) [[1], [2], [3]])) [0, 0, 0] 1 = Inr out \<and>
     run [StdAggregation] (Matrix 1 (map (map Fin) [[1], [2], [3]])) [0, 0, 0] 1 = Inr (block 1 2 out)"
proof -
  let ?aggrs = "[SumAggregation, VarAggregation, StdAggregation]"
  have a: "?aggrs \<noteq> []" "set ?aggrs \<subseteq> FUSABLE_AGGRS" "distinct ?aggrs"
    by (simp_all add: FUSABLE_AGGRS_def)
  have v: "valid_input 1 [[1], [2], [3]] [0, 0, 0] 1" by (simp add: valid_input_def)
  from fused_equals_unfused[OF a v] obtain out where
    o: "run ?aggrs (Matrix 1 (map (map Fin) [[1], [2], [3]])) [0, 0, 0] 1 = Inr out"
    and b: "\<forall>i < length ?aggrs.
              run [?aggrs ! i] (Matrix 1 (map (map Fin) [[1], [2], [3]])) [0, 0, 0] 1 = Inr (block 1 i out)"
    by blast
  have "(2::nat) < length ?aggrs" by simp
  with b have "run [?aggrs ! 2] (Matrix 1 (map (map Fin) [[1], [2], [3]])) [0, 0, 0] 1 = Inr (block 1 2 out)"
    by blast
  with o show ?thesis by simp
qed

text \<open>
  C10. For any duplicate-free list of fusable kinds and any permutation of it (a
  duplicate-free list with the same elements), the engine
  configured with the permuted list returns, on the same input, the same block for each
  kind, at the position the kind has in the permuted list.
\<close>

theorem permutation_invariance:
  assumes "aggrs \<noteq> []" and "set aggrs \<subseteq> FUSABLE_AGGRS" and "distinct aggrs"
    and "distinct aggrs'" and "set aggrs' = set aggrs" and "valid_input F rows index G"
  shows "\<exists>out out'. run aggrs (Matrix F (map (map Fin) rows)) index G = Inr out \<and>
           run aggrs' (Matrix F (map (map Fin) rows)) index G = Inr out' \<and>
           length aggrs' = length aggrs \<and>
           (\<forall>i < length aggrs. \<forall>j < length aggrs'.
              aggrs ! i = aggrs' ! j \<longrightarrow> block F i out = block F j out')"
proof -
  note s = assms(5) and d = assms(4)
  from s assms(1) have ne: "aggrs' \<noteq> []" by auto
  from s assms(2) have fu: "set aggrs' \<subseteq> FUSABLE_AGGRS" by simp
  have len: "length aggrs' = length aggrs"
    using distinct_card[OF d] distinct_card[OF assms(3)] s by simp
  let ?spec = "\<lambda>k. spec_aggregate k (map (map Fin) rows) index G F"
  note b = blocks_of_hcat(3)[OF assms(2,1,6)] and b' = blocks_of_hcat(3)[OF fu ne assms(6)]
  have "\<forall>i < length aggrs. \<forall>j < length aggrs'. aggrs ! i = aggrs' ! j \<longrightarrow>
          block F i (hcat (map ?spec aggrs)) = block F j (hcat (map ?spec aggrs'))"
    using b b' by simp
  with run_distinct[OF assms(1,2,3,6)] run_distinct[OF ne fu d assms(6)] len
  show ?thesis by blast
qed

theorem permutation_invariance_witness:
  "\<exists>out out'. run [SumAggregation, MeanAggregation, StdAggregation]
                 (Matrix 1 (map (map Fin) [[1], [3]])) [0, 0] 2 = Inr out \<and>
     run [StdAggregation, SumAggregation, MeanAggregation]
                 (Matrix 1 (map (map Fin) [[1], [3]])) [0, 0] 2 = Inr out' \<and>
     block 1 2 out = block 1 0 out' \<and> block 1 1 out = block 1 2 out'"
proof -
  let ?a = "[SumAggregation, MeanAggregation, StdAggregation]"
  let ?a' = "[StdAggregation, SumAggregation, MeanAggregation]"
  have a: "?a \<noteq> []" "set ?a \<subseteq> FUSABLE_AGGRS" "distinct ?a" "distinct ?a'"
    "set ?a' = set ?a"
    by (auto simp: FUSABLE_AGGRS_def)
  have v: "valid_input 1 [[1], [3]] [0, 0] 2" by (simp add: valid_input_def)
  from permutation_invariance[OF a v] obtain out out' where
    o: "run ?a (Matrix 1 (map (map Fin) [[1], [3]])) [0, 0] 2 = Inr out"
       "run ?a' (Matrix 1 (map (map Fin) [[1], [3]])) [0, 0] 2 = Inr out'"
    and b: "\<forall>i < length ?a. \<forall>j < length ?a'. ?a ! i = ?a' ! j \<longrightarrow> block 1 i out = block 1 j out'"
    by blast
  have "(2::nat) < length ?a" "(0::nat) < length ?a'" "?a ! 2 = ?a' ! 0"
       "(1::nat) < length ?a" "(2::nat) < length ?a'" "?a ! 1 = ?a' ! 2" by simp_all
  with b have "block 1 2 out = block 1 0 out'" "block 1 1 out = block 1 2 out'" by blast+
  with o show ?thesis by blast
qed



text \<open>
  C7. Whenever a degree-based kind (Mean, Variance, StdDev) is requested, the count that
  the derivation stages divide by has one entry per group, every entry is a finite number
  that is at least 1, so that dividing a finite entry by it is an ordinary division, and
  the entry of a group with zero assigned elements is exactly 1.
\<close>

theorem clamped_count_at_least_one:
  assumes "init aggrs = Inr self" and "\<exists>cls \<in> set aggrs. cls \<in> DEGREE_BASED_AGGRS"
    and "valid_input F rows index G"
  shows "\<exists>count msk.
           group_statistics self (map (map Fin) rows) index G = Inr (Some count, msk) \<and>
           length count = G \<and>
           (\<forall>g < G. \<exists>c. count ! g = Fin c \<and> 1 \<le> c \<and>
                      (\<forall>a. fdiv (Fin a) (count ! g) = Fin (a / c))) \<and>
           (\<forall>g < G. int g \<notin> set index \<longrightarrow> count ! g = Fin 1)"
proof -
  let ?xs = "map (map Fin) rows"
  have vi: "valid_index index G (length ?xs)"
    using valid_input_index[OF assms(3)] by simp
  have nd: "need_degree self" using assms(2) by (simp add: init_fields(5)[OF assms(1)])
  have "\<exists>msk. group_statistics self ?xs index G = Inr (Some (spec_count index G), msk)"
    using group_statistics_closed[OF vi, of self] nd by simp
  moreover have "length (spec_count index G) = G" by simp
  moreover have "\<forall>g < G. \<exists>c. spec_count index G ! g = Fin c \<and> 1 \<le> c \<and>
                      (\<forall>a. fdiv (Fin a) (spec_count index G ! g) = Fin (a / c))"
    using spec_count_props by blast
  moreover have "\<forall>g < G. int g \<notin> set index \<longrightarrow> spec_count index G ! g = Fin 1"
    using spec_count_empty by blast
  ultimately show ?thesis by blast
qed

theorem clamped_count_at_least_one_witness:
  "\<exists>self count msk. init [MaxAggregation, VarAggregation] = Inr self \<and>
      group_statistics self (map (map Fin) [[1], [2]]) [0, 0] 3 = Inr (Some count, msk) \<and>
      length count = 3 \<and> count ! 1 = Fin 1 \<and> count ! 2 = Fin 1 \<and>
      (\<exists>c. count ! 0 = Fin c \<and> 1 \<le> c)"
proof -
  let ?aggrs = "[MaxAggregation, VarAggregation]"
  obtain self where s: "init ?aggrs = Inr self"
    using init_ok[of ?aggrs] by (auto simp: FUSABLE_AGGRS_def)
  have d: "\<exists>cls \<in> set ?aggrs. cls \<in> DEGREE_BASED_AGGRS" by (simp add: DEGREE_BASED_AGGRS_def)
  have v: "valid_input 1 [[1], [2]] [0, 0] 3" by (simp add: valid_input_def)
  from clamped_count_at_least_one[OF s d v] obtain count msk where
    c: "group_statistics self (map (map Fin) [[1], [2]]) [0, 0] 3 = Inr (Some count, msk)"
       "length count = 3"
    and p: "\<forall>g < 3. \<exists>c. count ! g = Fin c \<and> 1 \<le> c \<and>
                      (\<forall>a. fdiv (Fin a) (count ! g) = Fin (a / c))"
    and e: "\<forall>g < 3. int g \<notin> set [0, 0] \<longrightarrow> count ! g = Fin 1"
    by blast
  have "(1::nat) < 3" "int 1 \<notin> set [0, 0]" "(2::nat) < 3" "int 2 \<notin> set [0, 0]" "(0::nat) < 3"
    by simp_all
  with e p have "count ! 1 = Fin 1" "count ! 2 = Fin 1" "\<exists>c. count ! 0 = Fin c \<and> 1 \<le> c"
    by blast+
  with s c show ?thesis by blast
qed




end
